theory Spec2Isabelle
  imports Main "HOL-Library.Word"
begin

unbundle bit_operations_syntax

section \<open>Mount entry (shlibs/mount/src/mountP.h, fs.c)\<close>

text \<open>
  C strings are modelled as \<open>string\<close> (a list of bytes without the terminating NUL),
  a \<open>char *\<close> that may be NULL as \<open>string option\<close>. The \<open>errno.h\<close> values are
  those of Linux.
\<close>

definition EINVAL :: int where "EINVAL = 22"
definition ENOMEM :: int where "ENOMEM = 12"
definition ENOENT :: int where "ENOENT = 2"
definition EINTR :: int where "EINTR = 4"
definition EACCES :: int where "EACCES = 13"
definition EEXIST :: int where "EEXIST = 17"
definition ETIMEDOUT :: int where "ETIMEDOUT = 110"

text \<open>
  \<open>struct _mnt_fs\<close>. The list link \<open>ents\<close> is the position of the entry in the
  table's list, \<open>userdata\<close> is an opaque pointer; neither is part of the record.
\<close>

record mnt_fs =
  id :: int
  parent :: int
  devno :: nat
  bindsrc :: "string option"
  source :: "string option"
  tagname :: "string option"
  tagval :: "string option"
  root :: "string option"
  target :: "string option"
  fstype :: "string option"
  vfs_optstr :: "string option"
  fs_optstr :: "string option"
  user_optstr :: "string option"
  attrs :: "string option"
  freq :: int
  passno :: int
  flags :: "32 word"

definition MNT_FS_PSEUDO :: "32 word" where "MNT_FS_PSEUDO = push_bit 1 1"
definition MNT_FS_NET :: "32 word" where "MNT_FS_NET = push_bit 2 1"
definition MNT_FS_SWAP :: "32 word" where "MNT_FS_SWAP = push_bit 3 1"

text \<open>\<open>mnt_new_fs\<close>: \<open>calloc\<close> gives an entry with every field zero.\<close>

definition mnt_new_fs :: mnt_fs where
  "mnt_new_fs = \<lparr> id = 0, parent = 0, devno = 0, bindsrc = None, source = None,
     tagname = None, tagval = None, root = None, target = None, fstype = None,
     vfs_optstr = None, fs_optstr = None, user_optstr = None, attrs = None,
     freq = 0, passno = 0, flags = 0 \<rparr>"

text \<open>
  \<open>__mnt_fs_set_fstype_ptr\<close>. The classifiers \<open>mnt_fstype_is_pseudofs\<close> and
  \<open>mnt_fstype_is_netfs\<close> live in utils.c; they are parameters here. The function
  always returns 0.
\<close>

definition mnt_fs_set_fstype_ptr ::
  "(string \<Rightarrow> bool) \<Rightarrow> (string \<Rightarrow> bool) \<Rightarrow> mnt_fs \<Rightarrow> string option \<Rightarrow> int \<times> mnt_fs" where
  "mnt_fs_set_fstype_ptr is_pseudofs is_netfs fs ft =
     (let fs1 = fs\<lparr> fstype := ft \<rparr>;
          fs2 = fs1\<lparr> flags := flags fs1 AND NOT MNT_FS_PSEUDO \<rparr>;
          fs3 = fs2\<lparr> flags := flags fs2 AND NOT MNT_FS_NET \<rparr>
      in case fstype fs3 of
           None \<Rightarrow> (0, fs3)
         | Some t \<Rightarrow>
             if is_pseudofs t then (0, fs3\<lparr> flags := flags fs3 OR MNT_FS_PSEUDO \<rparr>)
             else if is_netfs t then (0, fs3\<lparr> flags := flags fs3 OR MNT_FS_NET \<rparr>)
             else if t = ''swap'' then (0, fs3\<lparr> flags := flags fs3 OR MNT_FS_SWAP \<rparr>)
             else (0, fs3))"

text \<open>\<open>mnt_fs_set_fstype\<close>: the entry is never NULL here; \<open>strdup\<close> is taken to succeed.\<close>

definition mnt_fs_set_fstype ::
  "(string \<Rightarrow> bool) \<Rightarrow> (string \<Rightarrow> bool) \<Rightarrow> mnt_fs \<Rightarrow> string option \<Rightarrow> int \<times> mnt_fs" where
  "mnt_fs_set_fstype is_pseudofs is_netfs fs ft = mnt_fs_set_fstype_ptr is_pseudofs is_netfs fs ft"

text \<open>Reading one flag bit, as \<open>fs->flags & MNT_FS_X\<close> does.\<close>

definition has_flag :: "mnt_fs \<Rightarrow> 32 word \<Rightarrow> bool" where
  "has_flag fs m = (flags fs AND m \<noteq> 0)"

section \<open>Option strings (optstr.c)\<close>

text \<open>
  An option string lives in one buffer; a pointer into it is the offset from the start of
  the buffer, and a pointer that may be NULL is a \<open>nat option\<close>. \<open>realloc\<close>,
  \<open>malloc\<close> and \<open>strdup\<close> are taken to succeed.
\<close>

text \<open>
  What \<open>mnt_optstr_parse_next\<close> hands back: return code 0 with the name (offset and
  length), the value (offset or NULL, and length) and the new cursor; return code 1 at the
  end of the string; \<open>-EINVAL\<close> on a parse error.
\<close>

datatype next_option =
    Option_Item nat nat "nat option" nat nat
  | End_Of_Optstr
  | Parse_Error

definition next_option_rc :: "next_option \<Rightarrow> int" where
  "next_option_rc r =
     (case r of Option_Item n nsz v vsz nxt \<Rightarrow> 0 | End_Of_Optstr \<Rightarrow> 1 | Parse_Error \<Rightarrow> - EINVAL)"

text \<open>
  The \<open>for\<close> loop of \<open>mnt_optstr_parse_next\<close>. The first argument is the text from
  \<open>p\<close> on, then \<open>p\<close>, \<open>start\<close>, \<open>sep\<close> and \<open>open_quote\<close>. \<open>stop\<close>
  is set in the iteration that leaves the loop, so it is local to one iteration here;
  \<open>*stop\<close> is the comma when \<open>stop = p\<close> and NUL when \<open>stop = p + 1\<close>.
\<close>

fun parse_next_loop :: "string \<Rightarrow> nat \<Rightarrow> nat option \<Rightarrow> nat option \<Rightarrow> bool \<Rightarrow> next_option" where
  "parse_next_loop [] p start sep open_quote = End_Of_Optstr"
| "parse_next_loop (c # cs) p start sep open_quote =
     (let start1 = (case start of None \<Rightarrow> p | Some b \<Rightarrow> b);
          open_quote1 = (if c = CHR 0x22 then \<not> open_quote else open_quote)
      in if open_quote1 then parse_next_loop cs (p + 1) (Some start1) sep open_quote1
         else
           let sep1 = (if sep = None \<and> c = CHR ''='' then Some p else sep);
               stop = (if c = CHR '','' then Some p
                       else if cs = [] then Some (p + 1)
                       else None)
           in case stop of
                None \<Rightarrow> parse_next_loop cs (p + 1) (Some start1) sep1 open_quote1
              | Some e \<Rightarrow>
                  if e \<le> start1 then Parse_Error
                  else Option_Item start1
                         (case sep1 of Some q \<Rightarrow> q - start1 | None \<Rightarrow> e - start1)
                         (case sep1 of Some q \<Rightarrow> Some (q + 1) | None \<Rightarrow> None)
                         (case sep1 of Some q \<Rightarrow> e - q - 1 | None \<Rightarrow> 0)
                         (if c = CHR '','' then e + 1 else e))"

text \<open>\<open>mnt_optstr_parse_next\<close> on the buffer \<open>s\<close> with the cursor \<open>*optstr\<close> at \<open>cur\<close>.\<close>

definition mnt_optstr_parse_next :: "string \<Rightarrow> nat \<Rightarrow> next_option" where
  "mnt_optstr_parse_next s cur = parse_next_loop (drop cur s) cur None None False"

text \<open>\<open>mnt_optstr_next_option\<close>: \<open>-EINVAL\<close> for a NULL string, else the parser.\<close>

definition mnt_optstr_next_option :: "string option \<Rightarrow> nat \<Rightarrow> int \<times> next_option option" where
  "mnt_optstr_next_option optstr cur =
     (case optstr of
        None \<Rightarrow> (- EINVAL, None)
      | Some s \<Rightarrow> (next_option_rc (mnt_optstr_parse_next s cur), Some (mnt_optstr_parse_next s cur)))"

text \<open>\<open>struct mnt_optloc\<close>; \<open>mnt_init_optloc\<close> zeroes it.\<close>

record mnt_optloc =
  ol_begin :: "nat option"
  ol_end :: "nat option"
  ol_value :: "nat option"
  ol_valsz :: nat
  ol_namesz :: nat

definition mnt_init_optloc :: mnt_optloc where
  "mnt_init_optloc = \<lparr> ol_begin = None, ol_end = None, ol_value = None, ol_valsz = 0, ol_namesz = 0 \<rparr>"

text \<open>
  The \<open>do ... while\<close> loop of \<open>mnt_optstr_locate_option\<close>, with the cursor at \<open>cur\<close>.
  Every call of the parser overwrites \<open>ol->value\<close> and \<open>ol->valsz\<close>.
\<close>

function locate_loop :: "string \<Rightarrow> nat \<Rightarrow> string \<Rightarrow> mnt_optloc \<Rightarrow> int \<times> mnt_optloc" where
  "locate_loop s cur name ol =
     (case mnt_optstr_parse_next s cur of
        End_Of_Optstr \<Rightarrow> (1, ol\<lparr> ol_value := None, ol_valsz := 0 \<rparr>)
      | Parse_Error \<Rightarrow> (- EINVAL, ol\<lparr> ol_value := None, ol_valsz := 0 \<rparr>)
      | Option_Item n nsz v vsz nxt \<Rightarrow>
          if length name = nsz \<and> take nsz (drop n s) = take nsz name
          then (0, ol\<lparr> ol_value := v, ol_valsz := vsz, ol_begin := Some n,
                       ol_end := Some (if s ! (nxt - 1) = CHR '','' then nxt - 1 else nxt),
                       ol_namesz := nsz \<rparr>)
          else locate_loop s nxt name (ol\<lparr> ol_value := v, ol_valsz := vsz \<rparr>))"
  by pat_completeness auto
termination
proof (relation "measure (\<lambda>(s, cur, name, ol). length s - cur)")
  show "wf (measure (\<lambda>(s, cur, name, ol). length s - cur))" by simp
next
  fix s :: string and cur :: nat and name :: string and ol :: mnt_optloc
    and n nsz :: nat and v :: "nat option" and vsz nxt :: nat
  assume a: "mnt_optstr_parse_next s cur = Option_Item n nsz v vsz nxt"
  have step: "parse_next_loop cs p start sep oq = Option_Item n nsz v vsz nxt \<Longrightarrow> p < nxt \<and> cs \<noteq> []"
    for cs p start sep oq
  proof (induction cs arbitrary: p start sep oq)
    case Nil
    then show ?case by simp
  next
    case (Cons c cs)
    show ?case
    proof (cases "parse_next_loop (c # cs) p start sep oq =
        parse_next_loop cs (p + 1) (Some (case start of None \<Rightarrow> p | Some b \<Rightarrow> b))
          (if (if c = CHR 0x22 then \<not> oq else oq) then sep
           else if sep = None \<and> c = CHR ''='' then Some p else sep)
          (if c = CHR 0x22 then \<not> oq else oq)")
      case True
      with Cons.prems Cons.IH show ?thesis by fastforce
    next
      case False
      with Cons.prems show ?thesis
        by (auto simp: Let_def split: if_splits option.splits)
    qed
  qed
  from a have "cur < nxt \<and> drop cur s \<noteq> []"
    unfolding mnt_optstr_parse_next_def by (rule step)
  then show "((s, nxt, name, ol\<lparr>ol_value := v, ol_valsz := vsz\<rparr>), (s, cur, name, ol))
      \<in> measure (\<lambda>(s, cur, name, ol). length s - cur)"
    by (simp, arith)
qed

declare locate_loop.simps [simp del]

text \<open>\<open>mnt_optstr_locate_option\<close>: 1 (not found) for a NULL string.\<close>

definition mnt_optstr_locate_option :: "string option \<Rightarrow> string \<Rightarrow> mnt_optloc \<Rightarrow> int \<times> mnt_optloc" where
  "mnt_optstr_locate_option optstr name ol =
     (case optstr of None \<Rightarrow> (1, ol) | Some s \<Rightarrow> locate_loop s 0 name ol)"

text \<open>
  \<open>__mnt_optstr_append_option\<close> and \<open>mnt_optstr_append_option\<close> (the name is never
  NULL here). The result is the return code and the new \<open>*optstr\<close>.
\<close>

definition mnt_optstr_append_option_sz ::
  "string option \<Rightarrow> string \<Rightarrow> nat \<Rightarrow> string \<Rightarrow> nat \<Rightarrow> int \<times> string option" where
  "mnt_optstr_append_option_sz optstr name nsz val vsz =
     (let old = (case optstr of None \<Rightarrow> [] | Some s \<Rightarrow> s);
          osz = length old
      in (0, Some ((if osz \<noteq> 0 then old @ '','' else [])
                   @ take nsz name
                   @ (if vsz \<noteq> 0 then ''='' @ take vsz val else []))))"

definition mnt_optstr_append_option ::
  "string option \<Rightarrow> string \<Rightarrow> string option \<Rightarrow> int \<times> string option" where
  "mnt_optstr_append_option optstr name val =
     (let nsz = length name;
          vsz = (case val of None \<Rightarrow> 0 | Some v \<Rightarrow> length v)
      in mnt_optstr_append_option_sz optstr name nsz (case val of None \<Rightarrow> [] | Some v \<Rightarrow> v) vsz)"

text \<open>
  \<open>mnt_optstr_remove_option_at\<close> for \<open>begin \<le> end \<le> strlen\<close>; it returns 0. When
  \<open>begin\<close> is the start of the buffer the C code reads the byte in front of the buffer;
  whatever it finds there, the string that starts at \<open>*optstr\<close> is the same.
\<close>

definition mnt_optstr_remove_option_at :: "string \<Rightarrow> nat \<Rightarrow> nat \<Rightarrow> string" where
  "mnt_optstr_remove_option_at s b e =
     (let e1 = (if (b = 0 \<or> s ! (b - 1) = CHR '','') \<and> e < length s \<and> s ! e = CHR '',''
                then e + 1 else e);
          s1 = take b s @ drop e1 s
      in if drop e1 s = [] \<and> 0 < b \<and> s1 ! (b - 1) = CHR '','' then take (b - 1) s1 else s1)"

text \<open>\<open>mnt_optstr_remove_option\<close>.\<close>

definition mnt_optstr_remove_option :: "string option \<Rightarrow> string \<Rightarrow> int \<times> string option" where
  "mnt_optstr_remove_option optstr name =
     (case mnt_optstr_locate_option optstr name mnt_init_optloc of
        (rc, ol) \<Rightarrow>
          if rc \<noteq> 0 then (rc, optstr)
          else (case (optstr, ol_begin ol, ol_end ol) of
                  (Some s, Some b, Some e) \<Rightarrow> (0, Some (mnt_optstr_remove_option_at s b e))
                | _ \<Rightarrow> (- EINVAL, optstr)))"

text \<open>
  \<open>insert_value\<close> with \<open>next = NULL\<close>, as its only caller passes it: "=" is put in
  front of the substring unless the byte before \<open>pos\<close> is one.
\<close>

definition insert_value :: "string \<Rightarrow> nat \<Rightarrow> string \<Rightarrow> int \<times> string" where
  "insert_value str pos substr =
     (let sep = \<not> (0 < pos \<and> str ! (pos - 1) = CHR ''='')
      in (0, take pos str @ (if sep then ''='' else []) @ substr @ drop pos str))"

text \<open>\<open>mnt_optstr_set_option\<close>.\<close>

definition mnt_optstr_set_option ::
  "string option \<Rightarrow> string \<Rightarrow> string option \<Rightarrow> int \<times> string option" where
  "mnt_optstr_set_option optstr name val =
     (case (case optstr of None \<Rightarrow> (1, mnt_init_optloc)
            | Some s \<Rightarrow> mnt_optstr_locate_option optstr name mnt_init_optloc) of
        (rc, ol) \<Rightarrow>
          if rc < 0 then (rc, optstr)
          else if rc = 1 then mnt_optstr_append_option optstr name val
          else (case (optstr, ol_begin ol, ol_end ol) of
                  (Some s, Some b, Some e) \<Rightarrow>
                    (let nameend = b + ol_namesz ol in
                     case (val, ol_value ol) of
                       (None, Some vp) \<Rightarrow>
                         if ol_valsz ol \<noteq> 0
                         then (rc, Some (mnt_optstr_remove_option_at s nameend e))
                         else (rc, optstr)
                     | (Some v, None) \<Rightarrow>
                         (case insert_value s nameend v of (rc1, s1) \<Rightarrow> (rc1, Some s1))
                     | (Some v, Some vp) \<Rightarrow>
                         if length v = ol_valsz ol
                         then (rc, Some (take vp s @ v @ drop (vp + ol_valsz ol) s))
                         else (case insert_value (mnt_optstr_remove_option_at s nameend e) nameend v of
                                 (rc1, s1) \<Rightarrow> (rc1, Some s1))
                     | (None, None) \<Rightarrow> (rc, optstr))
                | _ \<Rightarrow> (rc, optstr)))"

section \<open>Merged options of an entry (fs.c)\<close>

text \<open>
  \<open>merge_optstr\<close>. The buffer \<open>res\<close> holds three bytes for the flag and then the
  string \<open>p\<close>, which the four removals edit in place.
\<close>

definition merge_optstr :: "string option \<Rightarrow> string option \<Rightarrow> string option" where
  "merge_optstr vfs fs =
     (case (vfs, fs) of
        (None, None) \<Rightarrow> None
      | (None, Some f) \<Rightarrow> Some f
      | (Some v, None) \<Rightarrow> Some v
      | (Some v, Some f) \<Rightarrow>
          if v = f then Some v
          else
            (let p0 = Some (v @ '','' @ f);
                 r1 = mnt_optstr_remove_option p0 ''rw'';
                 r2 = mnt_optstr_remove_option (snd r1) ''rw'';
                 rw = (if fst r1 = 0 then 1 else 0) + (if fst r2 = 0 then (1::nat) else 0);
                 r3 = (if rw \<noteq> 2 then mnt_optstr_remove_option (snd r2) ''ro'' else (1, snd r2));
                 ro3 = (if rw \<noteq> 2 \<and> fst r3 = 0 then (1::nat) else 0);
                 r4 = (if rw \<noteq> 2 \<and> ro3 + rw < 2
                       then mnt_optstr_remove_option (snd r3) ''ro'' else (1, snd r3));
                 ro = ro3 + (if rw \<noteq> 2 \<and> ro3 + rw < 2 \<and> fst r4 = 0 then 1 else 0);
                 p = (case snd r4 of None \<Rightarrow> [] | Some x \<Rightarrow> x)
             in if p = [] then Some (if ro \<noteq> 0 then ''ro'' else ''rw'')
                else Some ((if ro \<noteq> 0 then ''ro,'' else ''rw,'') @ p)))"

text \<open>\<open>mnt_fs_strdup_options\<close>.\<close>

definition mnt_fs_strdup_options :: "mnt_fs \<Rightarrow> string option" where
  "mnt_fs_strdup_options fs =
     (let res = merge_optstr (vfs_optstr fs) (fs_optstr fs)
      in case user_optstr fs of
           None \<Rightarrow> res
         | Some u \<Rightarrow> snd (mnt_optstr_append_option res u None))"

subsection \<open>Well-formed option strings, stated on their own\<close>

text \<open>
  The vocabulary of the properties below, independent of the code above: the quote state
  after a piece of text (a double quote toggles it), the absence of a given byte outside
  quotes, and the position of the first "=" outside quotes.
\<close>

fun quote_after :: "bool \<Rightarrow> string \<Rightarrow> bool" where
  "quote_after q [] = q"
| "quote_after q (c # cs) = quote_after (if c = CHR 0x22 then \<not> q else q) cs"

fun unquoted_free :: "char \<Rightarrow> bool \<Rightarrow> string \<Rightarrow> bool" where
  "unquoted_free x q [] = True"
| "unquoted_free x q (c # cs) =
     (let q1 = (if c = CHR 0x22 then \<not> q else q)
      in (q1 \<or> c \<noteq> x) \<and> unquoted_free x q1 cs)"

fun sep_index :: "bool \<Rightarrow> string \<Rightarrow> nat option" where
  "sep_index q [] = None"
| "sep_index q (c # cs) =
     (let q1 = (if c = CHR 0x22 then \<not> q else q)
      in if \<not> q1 \<and> c = CHR ''='' then Some 0 else map_option Suc (sep_index q1 cs))"

text \<open>
  An item is well formed when it is not empty, has no comma outside quotes and closes
  every quote it opens. Its name is the text before the first "=" outside quotes, its
  value the text after it.
\<close>

definition item_ok :: "string \<Rightarrow> bool" where
  "item_ok it = (it \<noteq> [] \<and> unquoted_free CHR '','' False it \<and> \<not> quote_after False it)"

definition opt_name :: "string \<Rightarrow> string" where
  "opt_name it = (case sep_index False it of None \<Rightarrow> it | Some i \<Rightarrow> take i it)"

definition opt_value :: "string \<Rightarrow> string option" where
  "opt_value it = (case sep_index False it of None \<Rightarrow> None | Some i \<Rightarrow> Some (drop (Suc i) it))"

text \<open>
  A name: not empty, no comma and no "=" outside quotes, quotes closed. A value: no comma
  outside quotes, quotes closed.
\<close>

definition name_ok :: "string \<Rightarrow> bool" where
  "name_ok n = (n \<noteq> [] \<and> unquoted_free CHR '','' False n \<and> unquoted_free CHR ''='' False n
                \<and> \<not> quote_after False n)"

definition value_ok :: "string \<Rightarrow> bool" where
  "value_ok v = (unquoted_free CHR '','' False v \<and> \<not> quote_after False v)"

text \<open>
  The tuple the parser is expected to return for an item that starts at \<open>b\<close> and ends
  before \<open>e\<close>, with its first unquoted "=" at \<open>sp\<close> (if any); \<open>at_end\<close> says
  that the item is the last one, so that no comma follows it.
\<close>

definition item_result :: "nat \<Rightarrow> nat \<Rightarrow> nat option \<Rightarrow> bool \<Rightarrow> next_option" where
  "item_result b e sp at_end =
     Option_Item b
       (case sp of Some q \<Rightarrow> q - b | None \<Rightarrow> e - b)
       (case sp of Some q \<Rightarrow> Some (q + 1) | None \<Rightarrow> None)
       (case sp of Some q \<Rightarrow> e - q - 1 | None \<Rightarrow> 0)
       (if at_end then e else e + 1)"

definition abs_sep :: "nat option \<Rightarrow> nat \<Rightarrow> bool \<Rightarrow> string \<Rightarrow> nat option" where
  "abs_sep sep p q cs =
     (case sep of
        Some x \<Rightarrow> Some x
      | None \<Rightarrow> (case sep_index q cs of None \<Rightarrow> None | Some i \<Rightarrow> Some (p + i)))"

text \<open>The items of an option string are joined by commas.\<close>

fun join_opts :: "string list \<Rightarrow> string" where
  "join_opts [] = []"
| "join_opts [it] = it"
| "join_opts (it # its) = it @ '','' @ join_opts its"

text \<open>Removing the first item with a given name from a list of items.\<close>

fun remove_named :: "string \<Rightarrow> string list \<Rightarrow> string list" where
  "remove_named n [] = []"
| "remove_named n (it # its) = (if opt_name it = n then its else it # remove_named n its)"

definition has_named :: "string \<Rightarrow> string list \<Rightarrow> bool" where
  "has_named n its = list_ex (\<lambda>it. opt_name it = n) its"

definition count_named :: "string \<Rightarrow> string list \<Rightarrow> nat" where
  "count_named n its = length (filter (\<lambda>it. opt_name it = n) its)"

text \<open>
  Where the first item with a given name starts in the joined string, counting from
  \<open>off\<close>, and which item it is.
\<close>

fun locate_items :: "string \<Rightarrow> string list \<Rightarrow> nat \<Rightarrow> (nat \<times> string) option" where
  "locate_items n [] off = None"
| "locate_items n (it # its) off =
     (if opt_name it = n then Some (off, it) else locate_items n its (off + length it + 1))"

text \<open>
  The location record expected for an item \<open>it\<close> named \<open>name\<close> that starts at
  \<open>off\<close>.
\<close>

definition located :: "mnt_optloc \<Rightarrow> string \<Rightarrow> nat \<Rightarrow> string \<Rightarrow> mnt_optloc" where
  "located ol name off it =
     ol\<lparr> ol_value := (case sep_index False it of None \<Rightarrow> None | Some i \<Rightarrow> Some (off + i + 1)),
         ol_valsz := (case sep_index False it of None \<Rightarrow> 0 | Some i \<Rightarrow> length it - i - 1),
         ol_begin := Some off, ol_end := Some (off + length it), ol_namesz := length name \<rparr>"

text \<open>The item that appending a name and a value adds: an empty value adds the bare name.\<close>

definition new_item :: "string \<Rightarrow> string option \<Rightarrow> string" where
  "new_item n v = n @ (case v of None \<Rightarrow> [] | Some x \<Rightarrow> if x = [] then [] else CHR ''='' # x)"

text \<open>
  The merge of the items of two option strings, stated on lists of items. Up to two items
  named rw are taken out; if fewer than two were there, items named ro are taken out as
  well, two when there was no rw and one when there was one. The flag put in front is ro
  when there were fewer than two rw and at least one ro, else rw.
\<close>

definition merge_items :: "string list \<Rightarrow> string list" where
  "merge_items its =
     (let x2 = remove_named ''rw'' (remove_named ''rw'' its) in
      if 2 \<le> count_named ''rw'' its then ''rw'' # x2
      else (if has_named ''ro'' its then ''ro'' else ''rw'') #
           (if count_named ''rw'' its = 1 then remove_named ''ro'' x2
            else remove_named ''ro'' (remove_named ''ro'' x2)))"

text \<open>Items named rw or ro.\<close>

definition is_rw_ro :: "string \<Rightarrow> bool" where
  "is_rw_ro it = (opt_name it = ''rw'' \<or> opt_name it = ''ro'')"

text \<open>An option string whose quoted block is never closed: \<open>a="b,c\<close>.\<close>

definition unterminated_optstr :: string where
  "unterminated_optstr = ''a='' @ [CHR 0x22] @ ''b,c''"

section \<open>Source and tag of an entry (fs.c)\<close>

text \<open>\<open>mnt_fs_get_srcpath\<close>: NULL when the entry carries a tag, the source otherwise.\<close>

definition mnt_fs_get_srcpath :: "mnt_fs \<Rightarrow> string option" where
  "mnt_fs_get_srcpath fs = (if tagname fs \<noteq> None then None else source fs)"

definition mnt_fs_get_source :: "mnt_fs \<Rightarrow> string option" where
  "mnt_fs_get_source fs = source fs"

text \<open>\<open>mnt_fs_get_tag\<close>: \<open>-EINVAL\<close> without a tag name, else the pair as stored.\<close>

definition mnt_fs_get_tag :: "mnt_fs \<Rightarrow> int + (string \<times> string option)" where
  "mnt_fs_get_tag fs =
     (case tagname fs of None \<Rightarrow> Inl (- EINVAL) | Some t \<Rightarrow> Inr (t, tagval fs))"

text \<open>
  \<open>__mnt_fs_set_source_ptr\<close>. \<open>blkid_parse_tag_string\<close> belongs to libblkid and is a
  parameter: \<open>None\<close> is its failure, \<open>Some (name, value)\<close> its two output strings.
  The result is the return code and the entry; on failure the entry is untouched.
\<close>

definition mnt_fs_set_source_ptr ::
  "(string \<Rightarrow> (string \<times> string) option) \<Rightarrow> mnt_fs \<Rightarrow> string option \<Rightarrow> int \<times> mnt_fs" where
  "mnt_fs_set_source_ptr blkid_parse_tag_string fs src =
     (let src1 = (if src = Some ''none'' then None else src) in
      case (case src1 of
              None \<Rightarrow> Some (None, None)
            | Some s \<Rightarrow>
                if CHR ''='' \<in> set s
                then (case blkid_parse_tag_string s of
                        None \<Rightarrow> None
                      | Some (t, v) \<Rightarrow> Some (Some t, Some v))
                else Some (None, None)) of
        None \<Rightarrow> (- 1, fs)
      | Some (t, v) \<Rightarrow> (0, fs\<lparr> source := src1, tagname := t, tagval := v \<rparr>))"

section \<open>Path comparison (fs.c)\<close>

text \<open>
  Modelled from the spec: \<open>streq_except_trailing_slash\<close> is declared in strutils.h,
  which is not among the sources. The comparison ignores a single trailing slash on
  both sides; two NULL strings are equal, a NULL and a string are not.
\<close>

definition strip_trailing_slash :: "string \<Rightarrow> string" where
  "strip_trailing_slash s = (if s \<noteq> [] \<and> last s = CHR ''/'' then butlast s else s)"

definition streq_except_trailing_slash :: "string option \<Rightarrow> string option \<Rightarrow> bool" where
  "streq_except_trailing_slash s1 s2 =
     (case (s1, s2) of
        (None, None) \<Rightarrow> True
      | (Some a, Some b) \<Rightarrow> strip_trailing_slash a = strip_trailing_slash b
      | _ \<Rightarrow> False)"

definition mnt_fs_streq_target :: "mnt_fs \<Rightarrow> string option \<Rightarrow> bool" where
  "mnt_fs_streq_target fs path = streq_except_trailing_slash (target fs) path"

definition mnt_fs_streq_srcpath :: "mnt_fs \<Rightarrow> string option \<Rightarrow> bool" where
  "mnt_fs_streq_srcpath fs path =
     (let p = mnt_fs_get_srcpath fs in
      if \<not> has_flag fs MNT_FS_PSEUDO then streq_except_trailing_slash p path
      else if p = None \<and> path = None then True
      else (case (p, path) of (Some a, Some b) \<Rightarrow> a = b | _ \<Rightarrow> False))"

section \<open>Mount table and lookups (mountP.h, tab.c)\<close>

text \<open>
  The resolver cache (cache.c) is an external collaborator; its answers are the fields of
  this record. \<open>mnt_cache_read_tags\<close> gives its return code and the \<open>errno\<close> it leaves.
\<close>

record mnt_cache =
  mnt_resolve_path :: "string \<Rightarrow> string option"
  mnt_cache_read_tags :: "string \<Rightarrow> int \<times> int"
  mnt_cache_device_has_tag :: "string \<Rightarrow> string \<Rightarrow> string option \<Rightarrow> bool"
  mnt_resolve_tag :: "string \<Rightarrow> string option \<Rightarrow> string option"

datatype tab_format = MNT_FMT_GUESS | MNT_FMT_FSTAB | MNT_FMT_MOUNTINFO

text \<open>
  \<open>struct _mnt_tab\<close>. The error callback receives the file name and the line number.
\<close>

record mnt_tab =
  fmt :: tab_format
  nents :: int
  cache :: "mnt_cache option"
  errcb :: "(string \<Rightarrow> int \<Rightarrow> int) option"
  ents :: "mnt_fs list"

datatype direction = MNT_ITER_FORWARD | MNT_ITER_BACKWARD

text \<open>
  The entries in the order in which \<open>mnt_reset_iter\<close> followed by repeated
  \<open>mnt_tab_next_fs\<close> delivers them.
\<close>

definition iter_ents :: "mnt_tab \<Rightarrow> direction \<Rightarrow> mnt_fs list" where
  "iter_ents tb d = (case d of MNT_ITER_FORWARD \<Rightarrow> ents tb | MNT_ITER_BACKWARD \<Rightarrow> rev (ents tb))"

definition mnt_tab_get_nents :: "mnt_tab \<Rightarrow> int" where
  "mnt_tab_get_nents tb = nents tb"

definition mnt_tab_add_fs :: "mnt_tab \<Rightarrow> mnt_fs \<Rightarrow> int \<times> mnt_tab" where
  "mnt_tab_add_fs tb fs = (0, tb\<lparr> ents := ents tb @ [fs], nents := nents tb + 1 \<rparr>)"

text \<open>
  A lookup returns an entry, or NULL, or dereferences a NULL pointer: \<open>strcmp(cn, p)\<close>
  in the third pass of \<open>mnt_tab_find_target\<close> is not guarded against a failed
  \<open>mnt_resolve_path\<close>.
\<close>

datatype lookup = Found mnt_fs | NotFound | NullDeref

text \<open>Third loop of \<open>mnt_tab_find_target\<close> ("non-canonicaled path in mnt_tab").\<close>

fun find_target_noncanon :: "mnt_cache \<Rightarrow> string \<Rightarrow> mnt_fs list \<Rightarrow> lookup" where
  "find_target_noncanon c cn [] = NotFound"
| "find_target_noncanon c cn (fs # rest) =
     (case target fs of
        None \<Rightarrow> find_target_noncanon c cn rest
      | Some t \<Rightarrow>
          if \<not> has_flag fs MNT_FS_SWAP \<or> t = ''/'' then find_target_noncanon c cn rest
          else (case mnt_resolve_path c t of
                  None \<Rightarrow> NullDeref
                | Some p \<Rightarrow> if cn = p then Found fs else find_target_noncanon c cn rest))"

definition mnt_tab_find_target :: "mnt_tab \<Rightarrow> string \<Rightarrow> direction \<Rightarrow> lookup" where
  "mnt_tab_find_target tb path d =
     (case find (\<lambda>fs. mnt_fs_streq_target fs (Some path)) (iter_ents tb d) of
        Some fs \<Rightarrow> Found fs
      | None \<Rightarrow>
          (case cache tb of
             None \<Rightarrow> NotFound
           | Some c \<Rightarrow>
               (case mnt_resolve_path c path of
                  None \<Rightarrow> NotFound
                | Some cn \<Rightarrow>
                    (case find (\<lambda>fs. mnt_fs_streq_target fs (Some cn)) (iter_ents tb d) of
                       Some fs \<Rightarrow> Found fs
                     | None \<Rightarrow> find_target_noncanon c cn (iter_ents tb d)))))"

text \<open>
  First loop of \<open>mnt_tab_find_srcpath\<close> ("native paths"): returns at the first match,
  counting in \<open>ntags\<close> the entries passed so far that have no source path.
\<close>

fun find_srcpath_native :: "string \<Rightarrow> mnt_fs list \<Rightarrow> int \<Rightarrow> mnt_fs option \<times> int" where
  "find_srcpath_native path [] ntags = (None, ntags)"
| "find_srcpath_native path (fs # rest) ntags =
     (if mnt_fs_streq_srcpath fs (Some path) then (Some fs, ntags)
      else find_srcpath_native path rest
             (if mnt_fs_get_srcpath fs = None then ntags + 1 else ntags))"

text \<open>The body of the "evaluated tag" loops: does the entry match the device \<open>cn\<close>?\<close>

definition tag_in_cache :: "mnt_cache \<Rightarrow> string \<Rightarrow> mnt_fs \<Rightarrow> bool" where
  "tag_in_cache c cn fs =
     (case mnt_fs_get_tag fs of
        Inl e \<Rightarrow> False
      | Inr (t, v) \<Rightarrow> mnt_cache_device_has_tag c cn t v)"

definition tag_by_udev :: "mnt_cache \<Rightarrow> string \<Rightarrow> mnt_fs \<Rightarrow> bool" where
  "tag_by_udev c cn fs =
     (case mnt_fs_get_tag fs of
        Inl e \<Rightarrow> False
      | Inr (t, v) \<Rightarrow> (case mnt_resolve_tag c t v of None \<Rightarrow> False | Some x \<Rightarrow> x = cn))"

text \<open>The body of the last loop ("non-canonicalized paths in mnt_tab").\<close>

definition srcpath_noncanon :: "mnt_cache \<Rightarrow> string \<Rightarrow> mnt_fs \<Rightarrow> bool" where
  "srcpath_noncanon c cn fs =
     (if flags fs AND (MNT_FS_NET OR MNT_FS_PSEUDO) \<noteq> 0 then False
      else (case mnt_fs_get_srcpath fs of
              None \<Rightarrow> False
            | Some p \<Rightarrow> (case mnt_resolve_path c p of None \<Rightarrow> False | Some q \<Rightarrow> cn = q)))"

definition mnt_tab_find_srcpath :: "mnt_tab \<Rightarrow> string \<Rightarrow> direction \<Rightarrow> mnt_fs option" where
  "mnt_tab_find_srcpath tb path d =
     (case find_srcpath_native path (iter_ents tb d) 0 of
        (Some fs, ntags) \<Rightarrow> Some fs
      | (None, ntags) \<Rightarrow>
          (case cache tb of
             None \<Rightarrow> None
           | Some c \<Rightarrow>
               (case mnt_resolve_path c path of
                  None \<Rightarrow> None
                | Some cn \<Rightarrow>
                    (case (if ntags < mnt_tab_get_nents tb
                           then find (\<lambda>fs. mnt_fs_streq_srcpath fs (Some cn)) (iter_ents tb d)
                           else None) of
                       Some fs \<Rightarrow> Some fs
                     | None \<Rightarrow>
                         (case (if ntags \<noteq> 0
                                then (case mnt_cache_read_tags c cn of
                                        (rc, errno) \<Rightarrow>
                                          if rc = 0 then find (tag_in_cache c cn) (iter_ents tb d)
                                          else if rc < 0 \<and> errno = EACCES
                                          then find (tag_by_udev c cn) (iter_ents tb d)
                                          else None)
                                else None) of
                            Some fs \<Rightarrow> Some fs
                          | None \<Rightarrow>
                              if ntags \<le> mnt_tab_get_nents tb
                              then find (srcpath_noncanon c cn) (iter_ents tb d)
                              else None)))))"

section \<open>Table parser (tab_parse.c)\<close>

text \<open>
  A \<open>FILE\<close> opened for reading: the bytes not yet read and the end-of-file indicator.
  Read errors are not modelled. \<open>take_line k\<close> reads at most \<open>k\<close> bytes and stops
  behind a newline; its third result tells that it ran into the end of the file.
\<close>

record stream =
  content :: string
  feof :: bool

definition BUFSIZ :: nat where "BUFSIZ = 8192"

fun take_line :: "nat \<Rightarrow> string \<Rightarrow> string \<times> string \<times> bool" where
  "take_line k [] = ([], [], k \<noteq> 0)"
| "take_line k (c # cs) =
     (if k = 0 then ([], c # cs, False)
      else if c = CHR 0x0A then ([c], cs, False)
      else (case take_line (k - 1) cs of (l, r, e) \<Rightarrow> (c # l, r, e)))"

text \<open>\<open>fgets(buf, n, f)\<close>: NULL when nothing is left, which sets the indicator.\<close>

definition fgets :: "nat \<Rightarrow> stream \<Rightarrow> string option \<times> stream" where
  "fgets n f =
     (if content f = [] then (None, f\<lparr> feof := True \<rparr>)
      else (case take_line (n - 1) (content f) of
              (l, r, e) \<Rightarrow> (Some l, \<lparr> content = r, feof = (feof f \<or> e) \<rparr>)))"

fun skip_spaces :: "string \<Rightarrow> string" where
  "skip_spaces [] = []"
| "skip_spaces (c # cs) = (if c = CHR '' '' \<or> c = CHR 0x09 then skip_spaces cs else c # cs)"

text \<open>
  What \<open>mnt_tab_parse_next\<close> makes of the buffer that \<open>fgets\<close> filled: the text up
  to the newline, without one carriage return in front of it and without leading blanks.
\<close>

definition chomp_line :: "string \<Rightarrow> string" where
  "chomp_line buf =
     (let l0 = takeWhile (\<lambda>c. c \<noteq> CHR 0x0A) buf;
          l1 = (if l0 \<noteq> [] \<and> last l0 = CHR 0x0D then butlast l0 else l0)
      in skip_spaces l1)"

text \<open>
  The line parsers \<open>guess_tab_format\<close>, \<open>mnt_parse_tab_line\<close> and
  \<open>mnt_parse_mountinfo_line\<close> rest on \<open>sscanf\<close> and \<open>strtol\<close> of the C library.
  They are parameters here: each line parser gives its return code and the entry as it
  left it.
\<close>

record line_parsers =
  guess_tab_format :: "string \<Rightarrow> tab_format"
  mnt_parse_tab_line :: "mnt_fs \<Rightarrow> string \<Rightarrow> int \<times> mnt_fs"
  mnt_parse_mountinfo_line :: "mnt_fs \<Rightarrow> string \<Rightarrow> int \<times> mnt_fs"

text \<open>The label \<open>err\<close> of \<open>mnt_tab_parse_next\<close>: the callback decides, 1 without one.\<close>

definition parse_next_err :: "mnt_tab \<Rightarrow> string \<Rightarrow> int \<Rightarrow> int" where
  "parse_next_err tb filename nlines =
     (case errcb tb of None \<Rightarrow> 1 | Some cb \<Rightarrow> cb filename nlines)"

text \<open>
  \<open>mnt_tab_parse_next\<close>: the result is the return code, the table (its format may have
  been guessed), the stream, the entry and the line counter.
\<close>

function mnt_tab_parse_next ::
  "line_parsers \<Rightarrow> mnt_tab \<Rightarrow> stream \<Rightarrow> mnt_fs \<Rightarrow> string \<Rightarrow> int
     \<Rightarrow> int \<times> mnt_tab \<times> stream \<times> mnt_fs \<times> int" where
  "mnt_tab_parse_next lp tb f fs filename nlines =
     (case fgets BUFSIZ f of
        (None, f1) \<Rightarrow> (- EINVAL, tb, f1, fs, nlines)
      | (Some buf, f1) \<Rightarrow>
          (let nlines1 = nlines + 1 in
           if CHR 0x0A \<notin> set buf \<and> \<not> feof f1
           then (parse_next_err tb filename nlines1, tb, f1, fs, nlines1)
           else
             (let s = chomp_line buf
              in if s = [] \<or> hd s = CHR ''#''
                 then mnt_tab_parse_next lp tb f1 fs filename nlines1
                 else
                   (let tb1 = (if fmt tb = MNT_FMT_GUESS
                               then tb\<lparr> fmt := guess_tab_format lp s \<rparr> else tb)
                    in case fmt tb1 of
                         MNT_FMT_FSTAB \<Rightarrow>
                           (case mnt_parse_tab_line lp fs s of
                              (rc, fs1) \<Rightarrow>
                                if rc \<noteq> 0
                                then (parse_next_err tb1 filename nlines1, tb1, f1, fs1, nlines1)
                                else (0, tb1, f1, fs1, nlines1))
                       | MNT_FMT_MOUNTINFO \<Rightarrow>
                           (case mnt_parse_mountinfo_line lp fs s of
                              (rc, fs1) \<Rightarrow>
                                if rc \<noteq> 0
                                then (parse_next_err tb1 filename nlines1, tb1, f1, fs1, nlines1)
                                else (0, tb1, f1, fs1, nlines1))
                       | MNT_FMT_GUESS \<Rightarrow> (0, tb1, f1, fs, nlines1)))))"
  by pat_completeness auto
termination
proof (relation "measure (\<lambda>(lp, tb, f, fs, filename, nlines). length (content f))")
  show "wf (measure (\<lambda>(lp, tb, f, fs, filename, nlines). length (content f)))" by simp
next
  fix lp :: line_parsers and tb :: mnt_tab and f :: stream and fs :: mnt_fs
    and filename :: string and nlines :: int and x :: "string option \<times> stream"
    and buf :: string and f1 :: stream and l s :: string and nlines1 :: int
    and x1 :: "string option" and l0 l1 :: string
  assume a: "(x1, f1) = fgets BUFSIZ f" "x1 = Some buf"
  have tl: "cs \<noteq> [] \<Longrightarrow> k \<noteq> 0 \<Longrightarrow> length (fst (snd (take_line k cs))) < length cs" for k cs
  proof (induction cs arbitrary: k)
    case Nil
    then show ?case by simp
  next
    case (Cons c cs)
    show ?case
    proof (cases "c = CHR 0x0A \<or> cs = [] \<or> k - 1 = 0")
      case True
      with Cons.prems show ?thesis
        by (cases cs) (auto split: prod.splits)
    next
      case False
      with Cons.IH [of "k - 1"] Cons.prems show ?thesis
        by (auto split: prod.splits)
    qed
  qed
  from a have ne: "content f \<noteq> []" by (auto simp: fgets_def split: if_splits)
  from tl [OF ne, of "BUFSIZ - 1"] a ne have "length (content f1) < length (content f)"
    by (auto simp: fgets_def BUFSIZ_def split: prod.splits)
  then show "((lp, tb, f1, fs, filename, nlines1), (lp, tb, f, fs, filename, nlines))
      \<in> measure (\<lambda>(lp, tb, f, fs, filename, nlines). length (content f))"
    by simp
qed

declare mnt_tab_parse_next.simps [simp del]

text \<open>
  The \<open>while (!feof(f))\<close> loop of \<open>mnt_tab_parse_stream\<close>; \<open>mnt_new_fs\<close> is taken
  to succeed. The result is the return code, the table and the stream.
\<close>

function parse_stream_loop ::
  "line_parsers \<Rightarrow> mnt_tab \<Rightarrow> stream \<Rightarrow> string \<Rightarrow> int \<Rightarrow> int \<times> mnt_tab \<times> stream" where
  "parse_stream_loop lp tb f filename nlines =
     (if feof f then (0, tb, f)
      else
        (case mnt_tab_parse_next lp tb f mnt_new_fs filename nlines of
           (rc, tb1, f1, fs1, nlines1) \<Rightarrow>
             (case (if rc = 0 then mnt_tab_add_fs tb1 fs1 else (rc, tb1)) of
                (rc2, tb2) \<Rightarrow>
                  if rc2 \<noteq> 0
                  then (if rc2 = 1 then parse_stream_loop lp tb2 f1 filename nlines1
                        else if feof f1 then (0, tb2, f1)
                        else (rc2, tb2, f1))
                  else parse_stream_loop lp tb2 f1 filename nlines1)))"
  by pat_completeness auto
termination
proof -
  let ?m = "\<lambda>f. length (content f) + (if feof f then 0 else (1::nat))"
  have tl: "cs \<noteq> [] \<Longrightarrow> k \<noteq> 0 \<Longrightarrow> length (fst (snd (take_line k cs))) < length cs" for k cs
  proof (induction cs arbitrary: k)
    case Nil
    then show ?case by simp
  next
    case (Cons c cs)
    show ?case
    proof (cases "c = CHR 0x0A \<or> cs = [] \<or> k - 1 = 0")
      case True
      with Cons.prems show ?thesis
        by (cases cs) (auto split: prod.splits)
    next
      case False
      with Cons.IH [of "k - 1"] Cons.prems show ?thesis
        by (auto split: prod.splits)
    qed
  qed
  have fg: "?m g \<le> ?m f \<and> (\<not> feof f \<longrightarrow> ?m g < ?m f)" if "fgets BUFSIZ f = (x, g)" for f g x
  proof (cases "content f = []")
    case True
    with that show ?thesis by (auto simp: fgets_def)
  next
    case False
    from tl [OF False, of "BUFSIZ - 1"] that False show ?thesis
      by (auto simp: fgets_def BUFSIZ_def split: prod.splits)
  qed
  have pn: "mnt_tab_parse_next lp tb f fs filename nlines = (rc, tb1, f1, fs1, nlines1) \<Longrightarrow>
      ?m f1 \<le> ?m f \<and> (\<not> feof f \<longrightarrow> ?m f1 < ?m f)"
    for lp tb f fs filename nlines rc tb1 f1 fs1 nlines1
  proof (induction lp tb f fs filename nlines rule: mnt_tab_parse_next.induct)
    case (1 lp tb f fs filename nlines)
    obtain x g where xg: "fgets BUFSIZ f = (x, g)" by force
    note m = fg [OF xg]
    show ?case
    proof (cases x)
      case None
      with xg "1.prems" have "f1 = g"
        by (simp add: mnt_tab_parse_next.simps [of lp tb f])
      with m show ?thesis by simp
    next
      case (Some buf)
      let ?s = "chomp_line buf"
      show ?thesis
      proof (cases "\<not> (CHR 0x0A \<notin> set buf \<and> \<not> feof g) \<and> (?s = [] \<or> hd ?s = CHR ''#'')")
        case True
        with xg Some "1.prems"
        have "mnt_tab_parse_next lp tb g fs filename (nlines + 1) = (rc, tb1, f1, fs1, nlines1)"
          by (simp add: mnt_tab_parse_next.simps [of lp tb f] Let_def)
        from "1.IH" [OF xg [symmetric] Some refl _ refl _ this] True
        have "?m f1 \<le> ?m g" by simp
        with m show ?thesis by auto
      next
        case False
        with xg Some "1.prems" have "f1 = g"
          by (auto simp: mnt_tab_parse_next.simps [of lp tb f] Let_def
              split: if_splits tab_format.splits prod.splits)
        with m show ?thesis by simp
      qed
    qed
  qed
  have step: "((lp, tb2, f1, filename, nlines1), (lp, tb, f, filename, nlines))
      \<in> measure (\<lambda>(lp, tb, f, filename, nlines). length (content f) + (if feof f then 0 else 1))"
    if "\<not> feof f" "(rc, x) = mnt_tab_parse_next lp tb f mnt_new_fs filename nlines"
      "(tb1, y) = x" "(f1, z) = y" "(fs1, nlines1) = z"
    for lp tb f filename nlines rc x tb1 y f1 z fs1 nlines1 tb2
  proof -
    from that have "mnt_tab_parse_next lp tb f mnt_new_fs filename nlines =
        (rc, tb1, f1, fs1, nlines1)" by simp
    from pn [OF this] that(1) show ?thesis by simp
  qed
  show ?thesis
    apply (relation "measure (\<lambda>(lp, tb, f, filename, nlines).
      length (content f) + (if feof f then 0 else 1))")
      apply simp
     apply (rule step; assumption)
    apply (rule step; assumption)
    done
qed

declare parse_stream_loop.simps [simp del]

text \<open>\<open>mnt_tab_parse_stream\<close>: the loop with the line counter at 0.\<close>

definition mnt_tab_parse_stream ::
  "line_parsers \<Rightarrow> mnt_tab \<Rightarrow> stream \<Rightarrow> string \<Rightarrow> int \<times> mnt_tab \<times> stream" where
  "mnt_tab_parse_stream lp tb f filename = parse_stream_loop lp tb f filename 0"

section \<open>Mount table lock, hard-link protocol (libmount/src/lock.c)\<close>

text \<open>
  \<open>struct libmnt_lock\<close> without the saved signal mask. The file system and the clock
  are outside the program: what the system calls of one call of \<open>lock_mtab\<close> return
  is given to the model as an environment, one record per turn of the retry loop. The
  calls of \<open>alarm\<close> and \<open>nanosleep\<close> are kept in a log, in the order in which they are
  made. Signal masks, signal handlers and the effects on the file system are not part of
  the state.
\<close>

record libmnt_lock =
  refcount :: int
  lockfile :: "string option"
  linkfile :: "string option"
  lockfile_fd :: int
  locked :: bool
  sigblock :: bool
  simplelock :: bool

definition MOUNTLOCK_MAXTIME :: int where "MOUNTLOCK_MAXTIME = 30"
definition MOUNTLOCK_WAITTIME :: int where "MOUNTLOCK_WAITTIME = 5000"

text \<open>\<open>waittime.tv_nsec\<close> as \<open>lock_mtab\<close> sets it; \<open>waittime.tv_sec\<close> is 0.\<close>

definition waittime_nsec :: int where "waittime_nsec = 1000 * MOUNTLOCK_WAITTIME"

text \<open>
  One turn of the loop as the system answers it: \<open>link\<close> and its \<open>errno\<close>,
  \<open>open\<close> of the lockfile and its \<open>errno\<close>, the monotonic clock (seconds) read
  after a failed \<open>open\<close>, the clock read on entry of \<open>mnt_wait_mtab_lock\<close>, and
  \<open>fcntl(F_SETLKW)\<close> with its \<open>errno\<close>. The answer to \<open>fcntl(F_SETLK)\<close> is
  ignored by the code.
\<close>

record attempt =
  link_ret :: int
  link_errno :: int
  open_ret :: int
  open_errno :: int
  now_open :: int
  now_wait :: int
  setlkw_ret :: int
  setlkw_errno :: int

text \<open>
  The environment of a whole call: \<open>open\<close> of the linkfile and its \<open>errno\<close>, the
  clock read before the loop, and the turns.
\<close>

record lock_env =
  create_ret :: int
  create_errno :: int
  clock0 :: int
  attempts :: "attempt list"

text \<open>
  The logged calls: \<open>alarm(seconds)\<close> and \<open>nanosleep\<close> with the nanoseconds of its
  interval.
\<close>

datatype lock_event = Alarm int | Nanosleep int

text \<open>\<open>mnt_unlock_file\<close> as far as the handle goes.\<close>

definition mnt_unlock_file :: "libmnt_lock \<Rightarrow> libmnt_lock" where
  "mnt_unlock_file ml = ml\<lparr> locked := False, lockfile_fd := - 1 \<rparr>"

text \<open>
  \<open>mnt_wait_mtab_lock\<close>: 0 on success, 1 on timeout, \<open>-errno\<close> on error, with the
  calls it logs. The blocking \<open>fcntl(F_SETLKW)\<close> stands between \<open>alarm(maxtime - now)\<close>
  and \<open>alarm(0)\<close>.
\<close>

definition mnt_wait_mtab_lock :: "attempt \<Rightarrow> int \<Rightarrow> int \<times> lock_event list" where
  "mnt_wait_mtab_lock a maxtime =
     (if now_wait a \<ge> maxtime then (1, [])
      else
        (if setlkw_ret a = - 1 then (if setlkw_errno a = EINTR then 1 else - setlkw_errno a)
         else 0,
         [Alarm (maxtime - now_wait a), Alarm 0]))"

text \<open>
  The loop \<open>while (!ml->locked)\<close> of \<open>lock_mtab\<close>, with the deadline, the interval
  of the pause and the log so far. \<open>None\<close> means that the environment has no further
  turn to offer while the loop is still going round. \<open>rc\<close> is \<open>-1\<close> at every
  \<open>goto failed\<close> that does not set it.
\<close>

fun lock_mtab_loop ::
  "libmnt_lock \<Rightarrow> int \<Rightarrow> int \<Rightarrow> lock_event list \<Rightarrow> attempt list
     \<Rightarrow> (int \<times> libmnt_lock \<times> lock_event list) option" where
  "lock_mtab_loop ml maxtime waittime log [] = (if locked ml then Some (0, ml, log) else None)"
| "lock_mtab_loop ml maxtime waittime log (a # rest) =
     (if locked ml then Some (0, ml, log)
      else
        (let ml1 = (if link_ret a = 0 then ml\<lparr> locked := True \<rparr> else ml) in
         if link_ret a < 0 \<and> link_errno a \<noteq> EEXIST
         then Some (if link_errno a > 0 then - link_errno a else - 1, mnt_unlock_file ml1, log)
         else
           (let ml2 = ml1\<lparr> lockfile_fd := open_ret a \<rparr> in
            if lockfile_fd ml2 < 0
            then (if open_errno a = ENOENT \<and> now_open a < maxtime
                  then lock_mtab_loop (ml2\<lparr> locked := False \<rparr>) maxtime waittime log rest
                  else Some (if open_errno a > 0 then - open_errno a else - 1,
                             mnt_unlock_file ml2, log))
            else if locked ml2 then Some (0, ml2, log)
            else
              (let err = fst (mnt_wait_mtab_lock a maxtime);
                   log1 = log @ snd (mnt_wait_mtab_lock a maxtime) in
               if err = 1 then Some (- ETIMEDOUT, mnt_unlock_file ml2, log1)
               else if err < 0 then Some (err, mnt_unlock_file ml2, log1)
               else lock_mtab_loop (ml2\<lparr> lockfile_fd := - 1 \<rparr>) maxtime waittime
                      (log1 @ [Nanosleep waittime]) rest))))"

text \<open>\<open>lock_mtab\<close> for a handle that is not NULL.\<close>

definition lock_mtab ::
  "libmnt_lock \<Rightarrow> lock_env \<Rightarrow> (int \<times> libmnt_lock \<times> lock_event list) option" where
  "lock_mtab ml env =
     (if locked ml then Some (0, ml, [])
      else if lockfile ml = None then Some (- EINVAL, ml, [])
      else if linkfile ml = None then Some (- EINVAL, ml, [])
      else if create_ret env < 0
      then Some (if create_errno env > 0 then - create_errno env else - 1, mnt_unlock_file ml, [])
      else lock_mtab_loop ml (clock0 env + MOUNTLOCK_MAXTIME) waittime_nsec [] (attempts env))"

text \<open>
  \<open>mnt_lock_file\<close> for a handle that is not NULL; the flock-based
  \<open>lock_simplelock\<close> is a parameter.
\<close>

definition mnt_lock_file ::
  "(libmnt_lock \<Rightarrow> (int \<times> libmnt_lock \<times> lock_event list) option) \<Rightarrow> libmnt_lock \<Rightarrow> lock_env
     \<Rightarrow> (int \<times> libmnt_lock \<times> lock_event list) option" where
  "mnt_lock_file lock_simplelock ml env =
     (if simplelock ml then lock_simplelock ml else lock_mtab ml env)"

text \<open>A turn on which both readings of the clock have reached the deadline.\<close>

definition past_deadline :: "int \<Rightarrow> attempt \<Rightarrow> bool" where
  "past_deadline maxtime a = (maxtime \<le> now_open a \<and> maxtime \<le> now_wait a)"

text \<open>
  Example handle and turns, each at a given reading of the clock: the lockfile of another
  process exists and its advisory lock is released while the wait lasts; the lockfile has
  just been removed when \<open>open\<close> looks for it; the wait for the advisory lock is
  interrupted.
\<close>

definition example_lock :: libmnt_lock where
  "example_lock = \<lparr> refcount = 1, lockfile = Some ''/etc/mtab~'', linkfile = Some ''/etc/mtab~.42'',
     lockfile_fd = - 1, locked = False, sigblock = False, simplelock = False \<rparr>"

definition turn_busy :: "int \<Rightarrow> attempt" where
  "turn_busy t = \<lparr> link_ret = - 1, link_errno = EEXIST, open_ret = 3, open_errno = 0,
     now_open = t, now_wait = t, setlkw_ret = 0, setlkw_errno = 0 \<rparr>"

definition turn_vanished :: "int \<Rightarrow> attempt" where
  "turn_vanished t = \<lparr> link_ret = - 1, link_errno = EEXIST, open_ret = - 1, open_errno = ENOENT,
     now_open = t, now_wait = t, setlkw_ret = 0, setlkw_errno = 0 \<rparr>"

definition turn_interrupted :: "int \<Rightarrow> attempt" where
  "turn_interrupted t = \<lparr> link_ret = - 1, link_errno = EEXIST, open_ret = 3, open_errno = 0,
     now_open = t, now_wait = t, setlkw_ret = - 1, setlkw_errno = EINTR \<rparr>"

definition example_lock_env :: "attempt list \<Rightarrow> lock_env" where
  "example_lock_env turns = \<lparr> create_ret = 3, create_errno = 0, clock0 = 100, attempts = turns \<rparr>"

subsection \<open>The order of the passes of the by-source-path lookup, stated on its own\<close>

text \<open>
  The test of the "evaluated tag" pass for one entry: which of the two loops runs depends
  on what \<open>mnt_cache_read_tags\<close> answered for the canonicalized input.
\<close>

definition srcpath_tag_match :: "mnt_cache \<Rightarrow> string \<Rightarrow> mnt_fs \<Rightarrow> bool" where
  "srcpath_tag_match c cn fs =
     (case mnt_cache_read_tags c cn of
        (rc, errno) \<Rightarrow>
          if rc = 0 then tag_in_cache c cn fs
          else if rc < 0 \<and> errno = EACCES then tag_by_udev c cn fs
          else False)"

fun first_some :: "'a option list \<Rightarrow> 'a option" where
  "first_some [] = None"
| "first_some (Some x # rest) = Some x"
| "first_some (None # rest) = first_some rest"

text \<open>
  Four searches tried in turn, each returning the first entry in iteration order that
  passes its test: raw equality; canonicalized input against the raw stored path; tag of
  the entry resolved through the cache; canonicalized input against the canonicalized
  stored path. Without a cache, or when the input cannot be canonicalized, only the first.
\<close>

definition find_srcpath_in_pass_order :: "mnt_tab \<Rightarrow> string \<Rightarrow> direction \<Rightarrow> mnt_fs option" where
  "find_srcpath_in_pass_order tb path d =
     (let its = iter_ents tb d;
          raw = find (\<lambda>fs. mnt_fs_streq_srcpath fs (Some path)) its
      in case cache tb of
           None \<Rightarrow> raw
         | Some c \<Rightarrow>
             (case mnt_resolve_path c path of
                None \<Rightarrow> raw
              | Some cn \<Rightarrow>
                  first_some [raw,
                    find (\<lambda>fs. mnt_fs_streq_srcpath fs (Some cn)) its,
                    find (srcpath_tag_match c cn) its,
                    find (srcpath_noncanon c cn) its]))"

subsection \<open>A small table used in the examples\<close>

text \<open>
  \<open>/dev/disk/by-id/ata-1\<close> is a symlink to \<open>/dev/sda1\<close>, which carries the label
  \<open>root\<close>; every other path canonicalizes to itself.
\<close>

definition example_cache :: mnt_cache where
  "example_cache = \<lparr>
     mnt_resolve_path = (\<lambda>p. if p = ''/dev/disk/by-id/ata-1'' then Some ''/dev/sda1'' else Some p),
     mnt_cache_read_tags = (\<lambda>dev. (0, 0)),
     mnt_cache_device_has_tag = (\<lambda>dev t v. dev = ''/dev/sda1'' \<and> t = ''LABEL'' \<and> v = Some ''root''),
     mnt_resolve_tag = (\<lambda>t v. if t = ''LABEL'' \<and> v = Some ''root'' then Some ''/dev/sda1'' else None) \<rparr>"

definition example_blkid_parse :: "string \<Rightarrow> (string \<times> string) option" where
  "example_blkid_parse s = (if s = ''LABEL=root'' then Some (''LABEL'', ''root'') else None)"

definition fs_by_id :: mnt_fs where
  "fs_by_id = mnt_new_fs\<lparr> source := Some ''/dev/disk/by-id/ata-1'', target := Some ''/a'' \<rparr>"

definition fs_by_label :: mnt_fs where
  "fs_by_label = mnt_new_fs\<lparr> source := Some ''LABEL=root'', tagname := Some ''LABEL'',
     tagval := Some ''root'', target := Some ''/b'' \<rparr>"

definition fs_swap :: mnt_fs where
  "fs_swap = mnt_new_fs\<lparr> source := Some ''/dev/sda2'', target := Some ''/dev/disk/by-id/ata-1'',
     fstype := Some ''swap'', flags := MNT_FS_SWAP \<rparr>"

definition example_tab :: mnt_tab where
  "example_tab = \<lparr> fmt = MNT_FMT_FSTAB, nents = 2, cache = Some example_cache, errcb = None,
     ents = [fs_by_id, fs_by_label] \<rparr>"

definition example_swap_tab :: mnt_tab where
  "example_swap_tab = example_tab\<lparr> ents := [fs_by_id, fs_swap] \<rparr>"

subsection \<open>A small stream used in the examples\<close>

text \<open>
  Two lines, the first of which the stand-in line parser rejects; the stand-in stores
  every other line as the source of the entry.
\<close>

definition example_line_parsers :: line_parsers where
  "example_line_parsers = \<lparr>
     guess_tab_format = (\<lambda>s. MNT_FMT_FSTAB),
     mnt_parse_tab_line = (\<lambda>fs s. if s = ''bad'' then (- EINVAL, fs) else (0, fs\<lparr> source := Some s \<rparr>)),
     mnt_parse_mountinfo_line = (\<lambda>fs s. (- EINVAL, fs)) \<rparr>"

definition example_stream :: stream where
  "example_stream = \<lparr> content = ''bad'' @ [CHR 0x0A] @ ''/dev/sda1'' @ [CHR 0x0A], feof = False \<rparr>"

definition empty_tab :: "(string \<Rightarrow> int \<Rightarrow> int) option \<Rightarrow> mnt_tab" where
  "empty_tab cb = \<lparr> fmt = MNT_FMT_GUESS, nents = 0, cache = None, errcb = cb, ents = [] \<rparr>"

section \<open>Properties\<close>

text \<open>
  C2 (the code departs from the claim). Setting the type of a fresh entry to "swap" and
  then to a pseudo filesystem type leaves both the swap bit and the pseudo bit set: the
  setter clears the pseudo and the network bit before it classifies, never the swap bit.
  The three bits are then not mutually exclusive and the swap bit no longer reflects the
  current type.
\<close>

theorem set_fstype_keeps_swap_bit:
  assumes "is_pseudofs t" and "\<not> is_pseudofs ''swap''" and "\<not> is_netfs ''swap''"
  shows "let fs1 = snd (mnt_fs_set_fstype is_pseudofs is_netfs mnt_new_fs (Some ''swap''));
             fs2 = snd (mnt_fs_set_fstype is_pseudofs is_netfs fs1 (Some t))
         in fstype fs2 = Some t \<and> has_flag fs2 MNT_FS_PSEUDO \<and> has_flag fs2 MNT_FS_SWAP
            \<and> flags fs2 = 10"
  using assms
  by (simp add: mnt_fs_set_fstype_def mnt_fs_set_fstype_ptr_def mnt_new_fs_def has_flag_def
      MNT_FS_PSEUDO_def MNT_FS_NET_def MNT_FS_SWAP_def Let_def)

theorem set_fstype_keeps_swap_bit_witness:
  "let p = (\<lambda>s. s = ''proc''); n = (\<lambda>s. s = ''nfs'');
       fs1 = snd (mnt_fs_set_fstype p n mnt_new_fs (Some ''swap''));
       fs2 = snd (mnt_fs_set_fstype p n fs1 (Some ''proc''))
   in fstype fs2 = Some ''proc'' \<and> has_flag fs2 MNT_FS_PSEUDO \<and> has_flag fs2 MNT_FS_SWAP
      \<and> flags fs2 = 10"
  using set_fstype_keeps_swap_bit [of "\<lambda>s. s = ''proc''" "''proc''" "\<lambda>s. s = ''nfs''"]
  by (simp add: Let_def)

subsection \<open>Table lookups\<close>



lemma find_target_noncanon_Found:
  "find_target_noncanon c cn its = Found fs \<Longrightarrow>
     fs \<in> set its \<and> has_flag fs MNT_FS_SWAP \<and> target fs \<noteq> Some ''/'' \<and>
     (\<exists>t. target fs = Some t \<and> mnt_resolve_path c t = Some cn)"
  by (induction its) (auto split: option.splits if_splits)

lemma find_target_noncanon_agree:
  "(\<forall>e\<in>set its. \<forall>t. has_flag e MNT_FS_SWAP \<and> target e = Some t \<and> t \<noteq> ''/'' \<longrightarrow>
        mnt_resolve_path c1 t = mnt_resolve_path c2 t) \<Longrightarrow>
   find_target_noncanon c1 cn its = find_target_noncanon c2 cn its"
  by (induction its) (auto split: option.splits if_splits)

lemma set_iter_ents: "set (iter_ents tb d) = set (ents tb)"
  by (cases d) (simp_all add: iter_ents_def)

lemma iter_ents_cache: "iter_ents (tb\<lparr>cache := x\<rparr>) d = iter_ents tb d"
  by (cases d) (simp_all add: iter_ents_def)

text \<open>
  C10. In the third pass of the by-target lookup an entry is compared only if it is flagged
  swap and its target is not exactly "/" (second conjunct: whatever that pass returns is
  such an entry, and its canonicalized target equals the canonicalized input). The stored
  target of an entry that is not flagged swap is never canonicalized: the result of the
  whole lookup does not depend on what the cache would answer for such targets (third
  conjunct). So an entry that is not flagged swap is found only through the first two
  passes: it matches the input or the canonicalized input raw (first conjunct).
\<close>

theorem find_target_swap_only:
  "(mnt_tab_find_target tb path d = Found fs \<and> \<not> has_flag fs MNT_FS_SWAP \<longrightarrow>
      mnt_fs_streq_target fs (Some path) \<or>
      (\<exists>c cn. cache tb = Some c \<and> mnt_resolve_path c path = Some cn \<and>
               mnt_fs_streq_target fs (Some cn)))
   \<and> (find_target_noncanon c cn its = Found hit \<longrightarrow>
        has_flag hit MNT_FS_SWAP \<and> target hit \<noteq> Some ''/'' \<and>
        (\<exists>t. target hit = Some t \<and> mnt_resolve_path c t = Some cn))
   \<and> (mnt_resolve_path c1 q = mnt_resolve_path c2 q \<and>
        (\<forall>e\<in>set (ents tb2). \<forall>t. has_flag e MNT_FS_SWAP \<and> target e = Some t \<and> t \<noteq> ''/'' \<longrightarrow>
            mnt_resolve_path c1 t = mnt_resolve_path c2 t) \<longrightarrow>
        mnt_tab_find_target (tb2\<lparr>cache := Some c1\<rparr>) q d2 =
        mnt_tab_find_target (tb2\<lparr>cache := Some c2\<rparr>) q d2)"
proof (intro conjI impI)
  assume a: "mnt_tab_find_target tb path d = Found fs \<and> \<not> has_flag fs MNT_FS_SWAP"
  show "mnt_fs_streq_target fs (Some path) \<or>
      (\<exists>c cn. cache tb = Some c \<and> mnt_resolve_path c path = Some cn \<and>
               mnt_fs_streq_target fs (Some cn))"
  proof (cases "find (\<lambda>fs. mnt_fs_streq_target fs (Some path)) (iter_ents tb d)")
    case (Some x)
    with a have "x = fs" by (simp add: mnt_tab_find_target_def)
    with Some show ?thesis by (auto simp: find_Some_iff)
  next
    case None
    with a obtain c cn where c: "cache tb = Some c" "mnt_resolve_path c path = Some cn"
      by (auto simp: mnt_tab_find_target_def split: option.splits)
    show ?thesis
    proof (cases "find (\<lambda>fs. mnt_fs_streq_target fs (Some cn)) (iter_ents tb d)")
      case (Some y)
      with a None c have "y = fs" by (simp add: mnt_tab_find_target_def)
      with Some c show ?thesis by (auto simp: find_Some_iff)
    next
      case n2: None
      with a None c have "find_target_noncanon c cn (iter_ents tb d) = Found fs"
        by (simp add: mnt_tab_find_target_def)
      from find_target_noncanon_Found [OF this] a show ?thesis by simp
    qed
  qed
next
  assume "find_target_noncanon c cn its = Found hit"
  from find_target_noncanon_Found [OF this]
  show "has_flag hit MNT_FS_SWAP" "target hit \<noteq> Some ''/''"
    "\<exists>t. target hit = Some t \<and> mnt_resolve_path c t = Some cn" by simp_all
next
  assume a: "mnt_resolve_path c1 q = mnt_resolve_path c2 q \<and>
        (\<forall>e\<in>set (ents tb2). \<forall>t. has_flag e MNT_FS_SWAP \<and> target e = Some t \<and> t \<noteq> ''/'' \<longrightarrow>
            mnt_resolve_path c1 t = mnt_resolve_path c2 t)"
  then have "find_target_noncanon c1 cn (iter_ents tb2 d2) = find_target_noncanon c2 cn (iter_ents tb2 d2)" for cn
    by (intro find_target_noncanon_agree) (simp add: set_iter_ents)
  with a show "mnt_tab_find_target (tb2\<lparr>cache := Some c1\<rparr>) q d2 =
        mnt_tab_find_target (tb2\<lparr>cache := Some c2\<rparr>) q d2"
    by (simp add: mnt_tab_find_target_def iter_ents_cache split: option.splits)
qed

lemma length_iter_ents: "length (iter_ents tb d) = length (ents tb)"
  by (cases d) (simp_all add: iter_ents_def)

lemma find_srcpath_native_fst:
  "fst (find_srcpath_native path its n) = find (\<lambda>fs. mnt_fs_streq_srcpath fs (Some path)) its"
  by (induction its arbitrary: n) simp_all

lemma find_srcpath_native_snd:
  "find (\<lambda>fs. mnt_fs_streq_srcpath fs (Some path)) its = None \<Longrightarrow>
   snd (find_srcpath_native path its n) =
     n + int (length (filter (\<lambda>fs. mnt_fs_get_srcpath fs = None) its))"
  by (induction its arbitrary: n) (simp_all split: if_splits)

lemma no_srcpath_no_match:
  "mnt_fs_get_srcpath fs = None \<Longrightarrow> \<not> mnt_fs_streq_srcpath fs (Some p)"
  by (simp add: mnt_fs_streq_srcpath_def streq_except_trailing_slash_def Let_def)

lemma tag_needs_no_srcpath:
  "srcpath_tag_match c cn fs \<Longrightarrow> mnt_fs_get_srcpath fs = None"
  by (auto simp: srcpath_tag_match_def tag_in_cache_def tag_by_udev_def mnt_fs_get_tag_def
      mnt_fs_get_srcpath_def split: option.splits if_splits prod.splits)

lemma find_None_all: "(\<And>x. x \<in> set xs \<Longrightarrow> \<not> P x) \<Longrightarrow> find P xs = None"
  by (simp add: find_None_iff)

lemma filter_all_length: "length (filter P xs) = length xs \<Longrightarrow> x \<in> set xs \<Longrightarrow> P x"
  by (metis filter_id_conv length_filter_less linorder_neq_iff order_less_irrefl)

lemma filter_none_length: "length (filter P xs) = 0 \<Longrightarrow> x \<in> set xs \<Longrightarrow> \<not> P x"
  by (simp add: filter_empty_conv)

lemma find_False: "find (\<lambda>x. False) xs = None"
  by (induction xs) simp_all

lemma first_some_Cons:
  "first_some (x # xs) = (case x of Some y \<Rightarrow> Some y | None \<Rightarrow> first_some xs)"
  by (cases x) simp_all

lemma find_tag_split:
  "(case mnt_cache_read_tags c cn of
      (rc, errno) \<Rightarrow>
        if rc = 0 then find (tag_in_cache c cn) its
        else if rc < 0 \<and> errno = EACCES then find (tag_by_udev c cn) its
        else None) = find (srcpath_tag_match c cn) its"
proof (cases "mnt_cache_read_tags c cn")
  case (Pair rc errno)
  have eq: "srcpath_tag_match c cn = (if rc = 0 then tag_in_cache c cn
        else if rc < 0 \<and> errno = EACCES then tag_by_udev c cn else (\<lambda>fs. False))"
    by (rule ext) (simp add: srcpath_tag_match_def Pair)
  show ?thesis by (simp add: Pair eq find_False)
qed

text \<open>
  C3 (as amended). On a table whose count equals the length of its list, the by-source-path
  lookup is the first hit of at most four passes in this order: raw equality, canonicalized
  input against the raw stored path, tag of the entry resolved through the cache, and only
  then canonicalized input against the canonicalized stored path; without a cache (or when
  the input cannot be canonicalized) only the first pass is made.
\<close>

theorem find_srcpath_pass_order:
  assumes n: "nents tb = int (length (ents tb))"
  shows "mnt_tab_find_srcpath tb path d = find_srcpath_in_pass_order tb path d"
proof -
  let ?its = "iter_ents tb d"
  let ?raw = "find (\<lambda>fs. mnt_fs_streq_srcpath fs (Some path)) ?its"
  let ?k = "int (length (filter (\<lambda>fs. mnt_fs_get_srcpath fs = None) ?its))"
  obtain r ntags where rn: "find_srcpath_native path ?its 0 = (r, ntags)" by force
  have r: "r = ?raw" using find_srcpath_native_fst [of path ?its 0] rn by simp
  show ?thesis
  proof (cases ?raw)
    case (Some fs)
    then show ?thesis using rn r
      by (simp add: mnt_tab_find_srcpath_def find_srcpath_in_pass_order_def Let_def split: option.splits)
  next
    case None
    have k: "ntags = ?k" using find_srcpath_native_snd [OF None, of 0] rn by simp
    have "length (filter (\<lambda>fs. mnt_fs_get_srcpath fs = None) ?its) \<le> length (ents tb)"
      using length_filter_le [of "\<lambda>fs. mnt_fs_get_srcpath fs = None" ?its]
      by (simp add: length_iter_ents)
    then have le: "ntags \<le> nents tb" using k n by simp
    have p2: "find (\<lambda>fs. mnt_fs_streq_srcpath fs (Some cn)) ?its = None" if "\<not> ntags < nents tb" for cn
    proof (rule find_None_all)
      fix x assume x: "x \<in> set ?its"
      from that le have "ntags = nents tb" by simp
      with k n have "length (filter (\<lambda>fs. mnt_fs_get_srcpath fs = None) ?its) = length ?its"
        by (simp add: length_iter_ents)
      from filter_all_length [OF this x] show "\<not> mnt_fs_streq_srcpath x (Some cn)"
        by (rule no_srcpath_no_match)
    qed
    have p3: "find (srcpath_tag_match c cn) ?its = None" if "ntags = 0" for c cn
    proof (rule find_None_all)
      fix x assume x: "x \<in> set ?its"
      from that k have "length (filter (\<lambda>fs. mnt_fs_get_srcpath fs = None) ?its) = 0" by simp
      from filter_none_length [OF this x] show "\<not> srcpath_tag_match c cn x"
        by (auto dest: tag_needs_no_srcpath)
    qed
    show ?thesis
    proof (cases "cache tb")
      case n1: None
      then show ?thesis using rn r None
        by (simp add: mnt_tab_find_srcpath_def find_srcpath_in_pass_order_def Let_def)
    next
      case (Some c)
      show ?thesis
      proof (cases "mnt_resolve_path c path")
        case n2: None
        then show ?thesis using rn r None Some
          by (simp add: mnt_tab_find_srcpath_def find_srcpath_in_pass_order_def Let_def)
      next
        case s2: (Some cn)
        show ?thesis
          using rn r None Some s2 le p2 [of cn] p3 [of c cn]
          by (simp add: mnt_tab_find_srcpath_def find_srcpath_in_pass_order_def Let_def
              mnt_tab_get_nents_def find_tag_split first_some_Cons split: option.splits)
      qed
    qed
  qed
qed


lemmas ex_defs = example_tab_def example_cache_def fs_by_id_def fs_by_label_def fs_swap_def
  mnt_new_fs_def iter_ents_def mnt_fs_streq_srcpath_def mnt_fs_streq_target_def
  streq_except_trailing_slash_def strip_trailing_slash_def has_flag_def mnt_fs_get_srcpath_def
  MNT_FS_PSEUDO_def MNT_FS_NET_def MNT_FS_SWAP_def mnt_fs_get_tag_def
  srcpath_noncanon_def srcpath_tag_match_def tag_in_cache_def tag_by_udev_def
  mnt_tab_get_nents_def

theorem find_srcpath_pass_order_witness:
  "nents example_tab = int (length (ents example_tab)) \<and>
   mnt_tab_find_srcpath example_tab ''/dev/sda1'' MNT_ITER_BACKWARD =
     find_srcpath_in_pass_order example_tab ''/dev/sda1'' MNT_ITER_BACKWARD \<and>
   find_srcpath_in_pass_order example_tab ''/dev/sda1'' MNT_ITER_BACKWARD = Some fs_by_label"
proof -
  have h: "nents example_tab = int (length (ents example_tab))"
    by (simp add: example_tab_def)
  have "find_srcpath_in_pass_order example_tab ''/dev/sda1'' MNT_ITER_BACKWARD = Some fs_by_label"
    by (simp add: find_srcpath_in_pass_order_def ex_defs Let_def)
  with h find_srcpath_pass_order [OF h, of "''/dev/sda1''" MNT_ITER_BACKWARD]
  show ?thesis by simp
qed

text \<open>
  The claim as stated puts the canonicalized-stored-path pass before the tag pass. In the
  example table the first entry matches only by its canonicalized stored path and the
  second only by its resolved tag; the lookup returns the second.
\<close>

theorem find_srcpath_tag_before_canonical_counterexample:
  "mnt_tab_find_srcpath example_tab ''/dev/sda1'' MNT_ITER_FORWARD = Some fs_by_label
   \<and> ents example_tab = [fs_by_id, fs_by_label]
   \<and> fs_by_id \<noteq> fs_by_label
   \<and> srcpath_noncanon example_cache ''/dev/sda1'' fs_by_id
   \<and> \<not> mnt_fs_streq_srcpath fs_by_id (Some ''/dev/sda1'')
   \<and> \<not> srcpath_tag_match example_cache ''/dev/sda1'' fs_by_id
   \<and> srcpath_tag_match example_cache ''/dev/sda1'' fs_by_label
   \<and> \<not> mnt_fs_streq_srcpath fs_by_label (Some ''/dev/sda1'')
   \<and> \<not> srcpath_noncanon example_cache ''/dev/sda1'' fs_by_label"
  by (simp add: mnt_tab_find_srcpath_def ex_defs)


theorem find_target_swap_only_witness:
  "mnt_tab_find_target example_swap_tab ''/a/'' MNT_ITER_FORWARD = Found fs_by_id
   \<and> \<not> has_flag fs_by_id MNT_FS_SWAP
   \<and> mnt_fs_streq_target fs_by_id (Some ''/a/'')
   \<and> find_target_noncanon example_cache ''/dev/sda1'' [fs_by_id, fs_swap] = Found fs_swap
   \<and> has_flag fs_swap MNT_FS_SWAP
   \<and> mnt_tab_find_target (example_swap_tab\<lparr>cache := Some example_cache\<rparr>) ''/dev/sda1'' MNT_ITER_FORWARD =
     mnt_tab_find_target (example_swap_tab\<lparr>cache := Some (example_cache\<lparr> mnt_resolve_path :=
        (\<lambda>p. if p = ''/a'' then None else mnt_resolve_path example_cache p) \<rparr>)\<rparr>)
        ''/dev/sda1'' MNT_ITER_FORWARD"
proof -
  let ?c2 = "example_cache\<lparr> mnt_resolve_path :=
        (\<lambda>p. if p = ''/a'' then None else mnt_resolve_path example_cache p) \<rparr>"
  have a: "mnt_tab_find_target example_swap_tab ''/a/'' MNT_ITER_FORWARD = Found fs_by_id \<and>
      \<not> has_flag fs_by_id MNT_FS_SWAP"
    by (simp add: mnt_tab_find_target_def example_swap_tab_def ex_defs)
  have b: "find_target_noncanon example_cache ''/dev/sda1'' [fs_by_id, fs_swap] = Found fs_swap"
    by (simp add: ex_defs)
  have c: "mnt_resolve_path example_cache ''/dev/sda1'' = mnt_resolve_path ?c2 ''/dev/sda1'' \<and>
        (\<forall>e\<in>set (ents example_swap_tab). \<forall>t. has_flag e MNT_FS_SWAP \<and> target e = Some t \<and> t \<noteq> ''/'' \<longrightarrow>
            mnt_resolve_path example_cache t = mnt_resolve_path ?c2 t)"
    by (simp add: example_swap_tab_def ex_defs)
  have d: "mnt_fs_streq_target fs_by_id (Some ''/a/'')" by (simp add: ex_defs)
  from find_target_swap_only [of example_swap_tab "''/a/''" MNT_ITER_FORWARD fs_by_id example_cache
      "''/dev/sda1''" "[fs_by_id, fs_swap]" fs_swap example_cache "''/dev/sda1''" ?c2 example_swap_tab
      MNT_ITER_FORWARD] a b c d
  show ?thesis by blast
qed

text \<open>
  C7 (as amended). Setting the source to a string with "=" that the tag parser accepts
  keeps the whole string in \<open>source\<close> and fills the tag pair; the source-path accessor
  then returns NULL, so the path view and the tag are mutually exclusive. A string with
  "=" that the tag parser rejects makes the setter fail with -1 and leaves the entry as it
  was. Any other string except "none" sets the source and clears the tag pair. The
  literal "none" gives a NULL source and no tag.
\<close>

theorem set_source_tag_or_path:
  "(CHR ''='' \<in> set s \<and> blkid_parse_tag_string s = Some (t, v) \<longrightarrow>
      mnt_fs_set_source_ptr blkid_parse_tag_string fs (Some s) =
        (0, fs\<lparr> source := Some s, tagname := Some t, tagval := Some v \<rparr>) \<and>
      mnt_fs_get_srcpath (snd (mnt_fs_set_source_ptr blkid_parse_tag_string fs (Some s))) = None \<and>
      mnt_fs_get_tag (snd (mnt_fs_set_source_ptr blkid_parse_tag_string fs (Some s))) = Inr (t, Some v))
   \<and> (CHR ''='' \<in> set s \<and> blkid_parse_tag_string s = None \<longrightarrow>
      mnt_fs_set_source_ptr blkid_parse_tag_string fs (Some s) = (- 1, fs))
   \<and> (CHR ''='' \<notin> set s \<and> s \<noteq> ''none'' \<longrightarrow>
      mnt_fs_set_source_ptr blkid_parse_tag_string fs (Some s) =
        (0, fs\<lparr> source := Some s, tagname := None, tagval := None \<rparr>) \<and>
      mnt_fs_get_srcpath (snd (mnt_fs_set_source_ptr blkid_parse_tag_string fs (Some s))) = Some s \<and>
      mnt_fs_get_tag (snd (mnt_fs_set_source_ptr blkid_parse_tag_string fs (Some s))) = Inl (- EINVAL))
   \<and> mnt_fs_set_source_ptr blkid_parse_tag_string fs (Some ''none'') =
        (0, fs\<lparr> source := None, tagname := None, tagval := None \<rparr>)"
  by (auto simp: mnt_fs_set_source_ptr_def mnt_fs_get_srcpath_def mnt_fs_get_tag_def)

theorem set_source_tag_or_path_witness:
  "CHR ''='' \<in> set ''LABEL=root'' \<and> example_blkid_parse ''LABEL=root'' = Some (''LABEL'', ''root'')
   \<and> mnt_fs_set_source_ptr example_blkid_parse mnt_new_fs (Some ''LABEL=root'') =
        (0, mnt_new_fs\<lparr> source := Some ''LABEL=root'', tagname := Some ''LABEL'', tagval := Some ''root'' \<rparr>)
   \<and> CHR ''='' \<in> set ''a=b'' \<and> example_blkid_parse ''a=b'' = None
   \<and> mnt_fs_set_source_ptr example_blkid_parse mnt_new_fs (Some ''a=b'') = (- 1, mnt_new_fs)
   \<and> CHR ''='' \<notin> set ''/dev/sda1'' \<and> ''/dev/sda1'' \<noteq> ''none''
   \<and> mnt_fs_set_source_ptr example_blkid_parse mnt_new_fs (Some ''/dev/sda1'') =
        (0, mnt_new_fs\<lparr> source := Some ''/dev/sda1'', tagname := None, tagval := None \<rparr>)"
proof -
  have a: "CHR ''='' \<in> set ''LABEL=root'' \<and> example_blkid_parse ''LABEL=root'' = Some (''LABEL'', ''root'')"
    by (simp add: example_blkid_parse_def)
  have b: "CHR ''='' \<in> set ''a=b'' \<and> example_blkid_parse ''a=b'' = None"
    by (simp add: example_blkid_parse_def)
  have c: "CHR ''='' \<notin> set ''/dev/sda1'' \<and> ''/dev/sda1'' \<noteq> ''none''" by simp
  from set_source_tag_or_path [of "''LABEL=root''" example_blkid_parse "''LABEL''" "''root''" mnt_new_fs]
    set_source_tag_or_path [of "''a=b''" example_blkid_parse _ _ mnt_new_fs]
    set_source_tag_or_path [of "''/dev/sda1''" example_blkid_parse _ _ mnt_new_fs]
    a b c
  show ?thesis by blast
qed

text \<open>
  The claim as stated says the source is cleared when a tag is recognized. It is not: the
  field keeps the unparsed tag string next to the filled tag pair.
\<close>

theorem set_source_keeps_tag_string_counterexample:
  "source (snd (mnt_fs_set_source_ptr example_blkid_parse mnt_new_fs (Some ''LABEL=root'')))
     = Some ''LABEL=root''
   \<and> tagname (snd (mnt_fs_set_source_ptr example_blkid_parse mnt_new_fs (Some ''LABEL=root'')))
     = Some ''LABEL''
   \<and> tagval (snd (mnt_fs_set_source_ptr example_blkid_parse mnt_new_fs (Some ''LABEL=root'')))
     = Some ''root''"
  by (simp add: mnt_fs_set_source_ptr_def example_blkid_parse_def)

subsection \<open>Option strings\<close>

lemma quote_after_append: "quote_after q (a @ b) = quote_after (quote_after q a) b"
  by (induction a arbitrary: q) simp_all

lemma unquoted_free_append:
  "unquoted_free x q (a @ b) = (unquoted_free x q a \<and> unquoted_free x (quote_after q a) b)"
  by (induction a arbitrary: q) (auto simp: Let_def)

lemma sep_index_less: "sep_index q cs = Some i \<Longrightarrow> i < length cs"
  by (induction cs arbitrary: q i) (auto simp: Let_def split: if_splits)

lemma sep_index_None: "(sep_index q cs = None) = unquoted_free CHR ''='' q cs"
  by (induction cs arbitrary: q) (auto simp: Let_def)

lemma sep_index_Some:
  "sep_index q cs = Some i \<Longrightarrow>
     cs ! i = CHR ''='' \<and> unquoted_free CHR ''='' q (take i cs) \<and> \<not> quote_after q (take i cs)"
proof (induction cs arbitrary: q i)
  case Nil
  then show ?case by simp
next
  case (Cons c cs)
  show ?case
  proof (cases i)
    case 0
    with Cons.prems show ?thesis by (auto simp: Let_def split: if_splits)
  next
    case (Suc j)
    with Cons.prems have "sep_index (if c = CHR 0x22 then \<not> q else q) cs = Some j"
      and "(if c = CHR 0x22 then \<not> q else q) \<or> c \<noteq> CHR ''=''"
      by (auto simp: Let_def split: if_splits)
    with Cons.IH [of _ j] Suc show ?thesis by (auto simp: Let_def)
  qed
qed

lemma sep_index_append_eq:
  "unquoted_free CHR ''='' q a \<Longrightarrow> \<not> quote_after q a \<Longrightarrow>
   sep_index q (a @ CHR ''='' # b) = Some (length a)"
  by (induction a arbitrary: q) (auto simp: Let_def)

lemma sep_index_append_none:
  "sep_index q a = None \<Longrightarrow>
   sep_index q (a @ b) =
     (case sep_index (quote_after q a) b of None \<Rightarrow> None | Some i \<Rightarrow> Some (length a + i))"
  by (induction a arbitrary: q) (auto simp: Let_def split: if_splits option.splits)

lemma sep_index_append_some:
  "sep_index q a = Some i \<Longrightarrow> sep_index q (a @ b) = Some i"
  by (induction a arbitrary: q i) (auto simp: Let_def split: if_splits)

lemma closed_last_not:
  "unquoted_free x q cs \<Longrightarrow> \<not> quote_after q cs \<Longrightarrow> cs \<noteq> [] \<Longrightarrow> x \<noteq> CHR 0x22 \<Longrightarrow> last cs \<noteq> x"
  by (induction cs arbitrary: q) (auto simp: Let_def split: if_splits)

lemma abs_sep_step:
  "abs_sep sep p oq (c # cs) =
     abs_sep (if \<not> (if c = CHR 0x22 then \<not> oq else oq) \<and> sep = None \<and> c = CHR ''='' then Some p else sep)
       (Suc p) (if c = CHR 0x22 then \<not> oq else oq) cs"
  by (cases sep) (auto simp: abs_sep_def Let_def split: option.splits)

lemma abs_sep_Nil: "abs_sep sep p q [] = sep"
  by (cases sep) (simp_all add: abs_sep_def)

text \<open>The loop over one well-formed item that is followed by a comma or by the end.\<close>

lemma parse_next_loop_item:
  assumes "todo \<noteq> []" "unquoted_free CHR '','' oq todo" "\<not> quote_after oq todo"
    and "rest = [] \<or> hd rest = CHR '',''"
    and "b \<le> p" "start = Some b \<or> (start = None \<and> b = p)"
  shows "parse_next_loop (todo @ rest) p start sep oq =
     item_result b (p + length todo) (abs_sep sep p oq todo) (rest = [])"
  using assms
proof (induction todo arbitrary: p start sep oq)
  case Nil
  then show ?case by simp
next
  case (Cons c cs)
  let ?q1 = "if c = CHR 0x22 then \<not> oq else oq"
  let ?sep1 = "if \<not> ?q1 \<and> sep = None \<and> c = CHR ''='' then Some p else sep"
  from Cons.prems have c: "?q1 \<or> c \<noteq> CHR '',''" and u: "unquoted_free CHR '','' ?q1 cs"
    and qa: "\<not> quote_after ?q1 cs"
    by (auto simp: Let_def)
  from Cons.prems have b: "(case start of None \<Rightarrow> p | Some x \<Rightarrow> x) = b" by auto
  show ?case
  proof (cases "cs = []")
    case True
    with qa have nq: "\<not> ?q1" by simp
    with c have cc: "c \<noteq> CHR '',''" by simp
    have s1: "abs_sep sep p oq [c] = ?sep1"
      by (simp only: abs_sep_step abs_sep_Nil)
    show ?thesis
    proof (cases rest)
      case Nil
      have "parse_next_loop ([c]) p start sep oq = item_result b (p + 1) ?sep1 True"
        using nq cc b Cons.prems(5) by (auto simp: Let_def item_result_def)
      with True Nil s1 show ?thesis by simp
    next
      case (Cons r rs)
      with Cons.prems(4) have r: "r = CHR '',''" by simp
      have "parse_next_loop (c # CHR '','' # rs) p start sep oq = item_result b (p + 1) ?sep1 False"
        using nq cc b Cons.prems(5) by (auto simp: Let_def item_result_def)
      with True Cons r s1 show ?thesis by simp
    qed
  next
    case False
    have ih: "parse_next_loop (cs @ rest) (p + 1) (Some b) ?sep1 ?q1 =
        item_result b (p + 1 + length cs) (abs_sep ?sep1 (p + 1) ?q1 cs) (rest = [])"
      using Cons.IH [where p = "p + 1" and start = "Some b" and sep = ?sep1 and oq = ?q1,
          OF False u qa Cons.prems(4)] Cons.prems(5) by simp
    from False have ne: "cs @ rest \<noteq> []" by simp
    have "parse_next_loop ((c # cs) @ rest) p start sep oq =
          parse_next_loop (cs @ rest) (p + 1) (Some b) ?sep1 ?q1"
      using c ne b by (auto simp: Let_def)
    with ih show ?thesis by (simp add: abs_sep_step [of sep p oq c cs])
  qed
qed

lemma parse_next_at:
  assumes "item_ok it" "drop cur s = it @ rest" "rest = [] \<or> hd rest = CHR '',''"
  shows "mnt_optstr_parse_next s cur =
     item_result cur (cur + length it)
       (case sep_index False it of None \<Rightarrow> None | Some i \<Rightarrow> Some (cur + i)) (rest = [])"
  using assms parse_next_loop_item [of it False rest cur cur None None]
  by (simp add: mnt_optstr_parse_next_def item_ok_def abs_sep_def)

lemma parse_next_item:
  assumes "item_ok it" "rest = [] \<or> hd rest = CHR '',''"
  shows "mnt_optstr_parse_next (pre @ it @ rest) (length pre) =
     item_result (length pre) (length pre + length it)
       (case sep_index False it of None \<Rightarrow> None | Some i \<Rightarrow> Some (length pre + i)) (rest = [])"
  using assms by (intro parse_next_at) simp_all

lemma parse_next_loop_no_error:
  "b < p \<Longrightarrow> parse_next_loop cs p (Some b) sep oq \<noteq> Parse_Error"
proof (induction cs arbitrary: p sep oq)
  case Nil
  then show ?case by simp
next
  case (Cons c cs)
  from Cons.prems have "b < p + 1" by simp
  from Cons.IH [OF this] Cons.prems show ?case
    by (auto simp: Let_def)
qed

lemma parse_next_loop_first:
  "parse_next_loop (c # cs) p None None False = Parse_Error \<longleftrightarrow> c = CHR '',''"
  using parse_next_loop_no_error [of p "p + 1" cs]
  by (auto simp: Let_def)

lemma parse_next_loop_end:
  "parse_next_loop cs p start sep oq = End_Of_Optstr \<longleftrightarrow>
     cs = [] \<or> (unquoted_free CHR '','' oq cs \<and> quote_after oq cs)"
proof (induction cs arbitrary: p start sep oq)
  case Nil
  then show ?case by simp
next
  case (Cons c cs)
  let ?q1 = "if c = CHR 0x22 then \<not> oq else oq"
  let ?b = "case start of None \<Rightarrow> p | Some b \<Rightarrow> b"
  show ?case
  proof (cases ?q1)
    case True
    then have "parse_next_loop (c # cs) p start sep oq =
        parse_next_loop cs (p + 1) (Some ?b) sep ?q1"
      by (simp add: Let_def)
    moreover have "parse_next_loop cs (p + 1) (Some ?b) sep ?q1 = End_Of_Optstr \<longleftrightarrow>
        cs = [] \<or> (unquoted_free CHR '','' ?q1 cs \<and> quote_after ?q1 cs)"
      by (rule Cons.IH)
    ultimately show ?thesis using True by (cases cs) (simp_all add: Let_def)
  next
    case False
    show ?thesis
    proof (cases "c = CHR '','' \<or> cs = []")
      case True
      with False have "parse_next_loop (c # cs) p start sep oq \<noteq> End_Of_Optstr"
        by (auto simp: Let_def)
      moreover from True False have "\<not> (unquoted_free CHR '','' oq (c # cs) \<and> quote_after oq (c # cs))"
        by (auto simp: Let_def)
      ultimately show ?thesis by simp
    next
      case nn: False
      let ?sep1 = "if sep = None \<and> c = CHR ''='' then Some p else sep"
      from False nn have "parse_next_loop (c # cs) p start sep oq =
          parse_next_loop cs (p + 1) (Some ?b) ?sep1 ?q1"
        by (simp add: Let_def)
      moreover have "parse_next_loop cs (p + 1) (Some ?b) ?sep1 ?q1 = End_Of_Optstr \<longleftrightarrow>
          cs = [] \<or> (unquoted_free CHR '','' ?q1 cs \<and> quote_after ?q1 cs)"
        by (rule Cons.IH)
      ultimately show ?thesis using False nn by (simp add: Let_def)
    qed
  qed
qed

lemma parse_next_loop_split:
  "parse_next_loop cs p start sep oq = Option_Item n nsz v vsz nxt \<Longrightarrow>
   \<exists>todo rest. cs = todo @ rest \<and> unquoted_free CHR '','' oq todo \<and> \<not> quote_after oq todo \<and>
      (rest = [] \<or> hd rest = CHR '','') \<and> (start = None \<longrightarrow> todo \<noteq> [])"
proof (induction cs arbitrary: p start sep oq)
  case Nil
  then show ?case by simp
next
  case (Cons c cs)
  let ?q1 = "if c = CHR 0x22 then \<not> oq else oq"
  let ?b = "case start of None \<Rightarrow> p | Some b \<Rightarrow> b"
  let ?sep1 = "if sep = None \<and> c = CHR ''='' then Some p else sep"
  consider (rec) sep' where "parse_next_loop (c # cs) p start sep oq =
        parse_next_loop cs (p + 1) (Some ?b) sep' ?q1" "?q1 \<or> c \<noteq> CHR '',''"
    | (comma) "\<not> ?q1" "c = CHR '',''"
    | (last) "\<not> ?q1" "c \<noteq> CHR '',''" "cs = []"
    by (cases ?q1; cases "c = CHR '',''"; cases "cs = []") (auto simp: Let_def)
  then show ?case
  proof cases
    case rec
    with Cons.prems have "parse_next_loop cs (p + 1) (Some ?b) sep' ?q1 = Option_Item n nsz v vsz nxt"
      by simp
    from Cons.IH [OF this] obtain todo rest where
      t: "cs = todo @ rest" "unquoted_free CHR '','' ?q1 todo" "\<not> quote_after ?q1 todo"
        "rest = [] \<or> hd rest = CHR '',''" by blast
    show ?thesis
    proof (intro exI conjI)
      show "c # cs = (c # todo) @ rest" using t by simp
      show "unquoted_free CHR '','' oq (c # todo)" using t rec(2) by (simp add: Let_def)
      show "\<not> quote_after oq (c # todo)" using t by simp
      show "rest = [] \<or> hd rest = CHR '',''" using t by simp
      show "start = None \<longrightarrow> c # todo \<noteq> []" by simp
    qed
  next
    case comma
    with Cons.prems have "start \<noteq> None"
      by (cases start) (auto simp: Let_def split: if_splits)
    with comma show ?thesis
      by (intro exI [of _ "[]"] exI [of _ "c # cs"]) (simp split: if_splits)
  next
    case last
    then show ?thesis
      by (intro exI [of _ "[c]"] exI [of _ "[]"]) (simp add: Let_def split: if_splits)
  qed
qed

lemma item_result_inj: "item_result b e sp l = Option_Item n nsz v vsz nxt \<Longrightarrow>
   n = b \<and> nsz = (case sp of Some q \<Rightarrow> q - b | None \<Rightarrow> e - b) \<and>
   v = (case sp of Some q \<Rightarrow> Some (q + 1) | None \<Rightarrow> None) \<and>
   vsz = (case sp of Some q \<Rightarrow> e - q - 1 | None \<Rightarrow> 0) \<and> nxt = (if l then e else e + 1)"
  by (auto simp: item_result_def)

lemma opt_name_length:
  "length (opt_name it) = (case sep_index False it of None \<Rightarrow> length it | Some i \<Rightarrow> i)"
  by (auto simp: opt_name_def dest: sep_index_less split: option.splits)

text \<open>What a successful call returns, read back from the buffer.\<close>

lemma parse_next_Item:
  assumes "mnt_optstr_parse_next s cur = Option_Item n nsz v vsz nxt"
  shows "\<exists>it rest. drop cur s = it @ rest \<and> item_ok it \<and> (rest = [] \<or> hd rest = CHR '','') \<and>
      n = cur \<and> nsz = length (opt_name it) \<and> take nsz (drop n s) = opt_name it \<and>
      (case v of None \<Rightarrow> None | Some vp \<Rightarrow> Some (take vsz (drop vp s))) = opt_value it \<and>
      nxt = cur + length it + (if rest = [] then 0 else 1) \<and> drop nxt s = tl rest"
proof -
  from assms have a: "parse_next_loop (drop cur s) cur None None False = Option_Item n nsz v vsz nxt"
    by (simp add: mnt_optstr_parse_next_def)
  from parse_next_loop_split [OF a] obtain it rest where
    t: "drop cur s = it @ rest" "unquoted_free CHR '','' False it" "\<not> quote_after False it"
      "rest = [] \<or> hd rest = CHR '',''" "it \<noteq> []" by blast
  then have ok: "item_ok it" by (simp add: item_ok_def)
  let ?sp = "case sep_index False it of None \<Rightarrow> None | Some i \<Rightarrow> Some (cur + i)"
  from parse_next_at [OF ok t(1) t(4)] assms
  have r: "item_result cur (cur + length it) ?sp (rest = []) = Option_Item n nsz v vsz nxt"
    by simp
  note r' = item_result_inj [OF r]
  have n: "n = cur" using r' by simp
  have nsz: "nsz = length (opt_name it)"
    using r' by (auto simp: opt_name_length split: option.splits)
  have nm: "take nsz (drop n s) = opt_name it"
    using n nsz t(1) by (auto simp: opt_name_def dest: sep_index_less split: option.splits)
  have nxt: "nxt = cur + length it + (if rest = [] then 0 else 1)"
    using r' by simp
  have dn: "drop nxt s = tl rest"
  proof -
    have "drop nxt s = drop (length it + (if rest = [] then 0 else 1)) (drop cur s)"
      using nxt by (simp add: add.commute add.left_commute)
    also have "\<dots> = tl rest" using t(1) by (cases rest) simp_all
    finally show ?thesis .
  qed
  have vv: "(case v of None \<Rightarrow> None | Some vp \<Rightarrow> Some (take vsz (drop vp s))) = opt_value it"
  proof (cases "sep_index False it")
    case None
    with r' show ?thesis by (simp add: opt_value_def)
  next
    case (Some i)
    from sep_index_less [OF Some] have il: "i < length it" .
    from Some r' have v: "v = Some (cur + i + 1)" and vsz: "vsz = length it - i - 1" by auto
    have "drop (cur + i + 1) s = drop (Suc i) (drop cur s)" by (simp add: add.commute)
    also have "\<dots> = drop (Suc i) it @ rest" using t(1) il by simp
    finally have "take vsz (drop (cur + i + 1) s) = drop (Suc i) it"
      using vsz il by simp
    with v Some show ?thesis by (simp add: opt_value_def)
  qed
  from t(1) ok t(4) n nsz nm vv nxt dn show ?thesis by blast
qed

lemma parse_next_past_end: "length s \<le> cur \<Longrightarrow> mnt_optstr_parse_next s cur = End_Of_Optstr"
  by (simp add: mnt_optstr_parse_next_def)

lemma parse_next_Error:
  "mnt_optstr_parse_next s cur = Parse_Error \<longleftrightarrow> cur < length s \<and> s ! cur = CHR '',''"
proof (cases "drop cur s")
  case Nil
  then show ?thesis by (simp add: mnt_optstr_parse_next_def)
next
  case (Cons c cs)
  then have cl: "cur < length s" by (cases "cur < length s") simp_all
  from Cons have "hd (drop cur s) = c" by simp
  with cl have "s ! cur = c" by (simp add: hd_drop_conv_nth)
  note cl this
  with Cons parse_next_loop_first [of c cs cur] show ?thesis
    by (simp add: mnt_optstr_parse_next_def)
qed

lemma parse_next_End:
  "mnt_optstr_parse_next s cur = End_Of_Optstr \<longleftrightarrow>
     length s \<le> cur \<or> (unquoted_free CHR '','' False (drop cur s) \<and> quote_after False (drop cur s))"
  by (simp add: mnt_optstr_parse_next_def parse_next_loop_end)

text \<open>
  C6 (as amended). With the cursor at or past the end of the string the parser returns the
  end indicator. It fails with a parse error exactly when the cursor stands on a comma,
  that is when the item at the cursor is empty. It also returns the end indicator, and not
  an error, when the text from the cursor on has no comma outside quotes and ends inside
  a quoted block that is never closed. In every other case it returns the next item: the
  text from the cursor splits into a well-formed item and a rest that is empty or starts
  with a comma; the name and the value handed back are those of the item, and the new
  cursor stands behind the item and behind the comma that follows it.
\<close>

theorem parse_next_outcomes:
  "(length s \<le> cur \<longrightarrow> mnt_optstr_parse_next s cur = End_Of_Optstr)
   \<and> (mnt_optstr_parse_next s cur = Parse_Error \<longleftrightarrow> cur < length s \<and> s ! cur = CHR '','')
   \<and> (mnt_optstr_parse_next s cur = End_Of_Optstr \<longleftrightarrow>
        length s \<le> cur \<or>
        (unquoted_free CHR '','' False (drop cur s) \<and> quote_after False (drop cur s)))
   \<and> (mnt_optstr_parse_next s cur = Option_Item n nsz v vsz nxt \<longrightarrow>
        (\<exists>it rest. drop cur s = it @ rest \<and> item_ok it \<and> (rest = [] \<or> hd rest = CHR '','') \<and>
           n = cur \<and> nsz = length (opt_name it) \<and> take nsz (drop n s) = opt_name it \<and>
           (case v of None \<Rightarrow> None | Some vp \<Rightarrow> Some (take vsz (drop vp s))) = opt_value it \<and>
           nxt = cur + length it + (if rest = [] then 0 else 1) \<and> drop nxt s = tl rest))"
  using parse_next_past_end [of s cur] parse_next_Error [of s cur] parse_next_End [of s cur]
    parse_next_Item [of s cur n nsz v vsz nxt]
  by blast

theorem parse_next_outcomes_witness:
  "length ''a,b'' \<le> 3 \<and> mnt_optstr_parse_next ''a,b'' 3 = End_Of_Optstr
   \<and> mnt_optstr_parse_next ''ab=1,c'' 0 = Option_Item 0 2 (Some 3) 1 5
   \<and> (\<exists>it rest. drop 0 ''ab=1,c'' = it @ rest \<and> item_ok it \<and> (rest = [] \<or> hd rest = CHR '','') \<and>
           2 = length (opt_name it) \<and> take 2 (drop 0 ''ab=1,c'') = opt_name it \<and>
           Some (take 1 (drop 3 ''ab=1,c'')) = opt_value it \<and>
           5 = 0 + length it + (if rest = [] then 0 else 1) \<and> drop 5 ''ab=1,c'' = tl rest)"
proof -
  have a: "length ''a,b'' \<le> 3" by simp
  have b: "mnt_optstr_parse_next ''ab=1,c'' 0 = Option_Item 0 2 (Some 3) 1 5"
    by (simp add: mnt_optstr_parse_next_def Let_def)
  from parse_next_outcomes [of "''a,b''" 3] a
    parse_next_outcomes [of "''ab=1,c''" 0 0 2 "Some 3" 1 5] b
  show ?thesis by simp
qed

text \<open>
  The claim as stated wants a parse error for a separator inside an unterminated quoted
  block, and the end indicator only at the end of the string. For \<open>a="b,c\<close> the
  parser returns the end indicator with the cursor at the start of a non-empty string.
  (An empty item after a trailing comma is not reported either: \<open>a,\<close> parses
  as one item followed by the end.)
\<close>

theorem parse_next_unterminated_quote_counterexample:
  "mnt_optstr_parse_next unterminated_optstr 0 = End_Of_Optstr
   \<and> next_option_rc (mnt_optstr_parse_next unterminated_optstr 0) = 1
   \<and> 0 < length unterminated_optstr
   \<and> unterminated_optstr ! 4 = CHR '',''
   \<and> mnt_optstr_parse_next ''a,'' 0 = Option_Item 0 1 None 0 2
   \<and> mnt_optstr_parse_next ''a,'' 2 = End_Of_Optstr"
  by (simp add: mnt_optstr_parse_next_def next_option_rc_def unterminated_optstr_def Let_def)

lemma join_opts_Cons:
  "join_opts (it # its) = it @ (if its = [] then [] else CHR '','' # join_opts its)"
  by (cases its) simp_all

lemma join_opts_Nil_iff: "list_all item_ok its \<Longrightarrow> join_opts its = [] \<longleftrightarrow> its = []"
  by (cases its) (auto simp: join_opts_Cons item_ok_def)

lemma join_opts_append:
  "join_opts (a @ b) =
     (if a = [] then join_opts b else if b = [] then join_opts a
      else join_opts a @ CHR '','' # join_opts b)"
  by (induction a) (auto simp: join_opts_Cons)

lemma item_ok_last: "item_ok it \<Longrightarrow> last it \<noteq> CHR '',''"
  using closed_last_not [of "CHR '',''" False it] by (simp add: item_ok_def)

lemma nth_of_drop: "drop cur s = xs \<Longrightarrow> i < length xs \<Longrightarrow> s ! (cur + i) = xs ! i"
  by (metis add.commute less_or_eq_imp_le linorder_not_le list.size(3) drop_all nth_drop not_less_zero)

lemma locate_loop_step:
  "mnt_optstr_parse_next s cur = Option_Item n nsz v vsz nxt \<Longrightarrow>
   locate_loop s cur name ol =
     (if length name = nsz \<and> take nsz (drop n s) = take nsz name
      then (0, ol\<lparr> ol_value := v, ol_valsz := vsz, ol_begin := Some n,
                   ol_end := Some (if s ! (nxt - 1) = CHR '','' then nxt - 1 else nxt),
                   ol_namesz := nsz \<rparr>)
      else locate_loop s nxt name (ol\<lparr> ol_value := v, ol_valsz := vsz \<rparr>))"
  by (subst locate_loop.simps) simp

lemma locate_loop_join:
  assumes "list_all item_ok its" "drop cur s = join_opts its"
  shows "locate_loop s cur name ol =
     (case locate_items name its cur of
        None \<Rightarrow> (1, ol\<lparr> ol_value := None, ol_valsz := 0 \<rparr>)
      | Some (off, it) \<Rightarrow> (0, located ol name off it))"
  using assms
proof (induction its arbitrary: cur ol)
  case Nil
  then have "mnt_optstr_parse_next s cur = End_Of_Optstr"
    by (simp add: mnt_optstr_parse_next_def)
  then show ?case by (subst locate_loop.simps) simp
next
  case (Cons it its)
  let ?rest = "if its = [] then [] else CHR '','' # join_opts its"
  let ?e = "cur + length it"
  let ?sp = "case sep_index False it of None \<Rightarrow> None | Some i \<Rightarrow> Some (cur + i)"
  from Cons.prems have ok: "item_ok it" and oks: "list_all item_ok its" by simp_all
  from Cons.prems have d: "drop cur s = it @ ?rest" by (simp add: join_opts_Cons)
  have r: "?rest = [] \<or> hd ?rest = CHR '',''" by simp
  have pn: "mnt_optstr_parse_next s cur = item_result cur ?e ?sp (?rest = [])"
    by (rule parse_next_at [OF ok d r])
  have re: "(?rest = []) = (its = [])" by simp
  let ?nxt = "if its = [] then ?e else ?e + 1"
  have nsz: "(case ?sp of Some q \<Rightarrow> q - cur | None \<Rightarrow> ?e - cur) = length (opt_name it)"
    by (auto simp: opt_name_length split: option.splits)
  have nm: "take (length (opt_name it)) (drop cur s) = opt_name it"
    using d by (auto simp: opt_name_def dest: sep_index_less split: option.splits)
  have cond: "(length name = length (opt_name it) \<and>
      take (length (opt_name it)) (drop cur s) = take (length (opt_name it)) name) \<longleftrightarrow>
      opt_name it = name"
    unfolding nm by (metis order_refl take_all)
  have itne: "it \<noteq> []" using ok by (simp add: item_ok_def)
  have en: "(if s ! (?nxt - 1) = CHR '','' then ?nxt - 1 else ?nxt) = ?e"
  proof (cases "its = []")
    case True
    from itne have eq: "cur + length it - 1 = cur + (length it - 1)" by (cases it) simp_all
    from nth_of_drop [OF d, of "length it - 1"] itne True
    have "s ! (?e - 1) = last it" by (simp only: eq) (simp add: last_conv_nth)
    with item_ok_last [OF ok] True show ?thesis by simp
  next
    case False
    from nth_of_drop [OF d, of "length it"] False
    have "s ! ?e = CHR '',''" by (simp add: nth_append)
    with False show ?thesis by simp
  qed
  let ?v = "case ?sp of Some q \<Rightarrow> Some (q + 1) | None \<Rightarrow> None"
  let ?vsz = "case ?sp of Some q \<Rightarrow> ?e - q - 1 | None \<Rightarrow> 0"
  let ?ol1 = "ol\<lparr> ol_value := ?v, ol_valsz := ?vsz \<rparr>"
  have pn': "mnt_optstr_parse_next s cur = Option_Item cur (length (opt_name it)) ?v ?vsz ?nxt"
    using pn nsz by (simp add: item_result_def)
  note st = locate_loop_step [OF pn', of name ol]
  show ?case
  proof (cases "opt_name it = name")
    case True
    with cond have B: "length name = length (opt_name it) \<and>
      take (length (opt_name it)) (drop cur s) = take (length (opt_name it)) name" by blast
    have "locate_loop s cur name ol =
        (0, ol\<lparr> ol_value := ?v, ol_valsz := ?vsz, ol_begin := Some cur,
                   ol_end := Some (if s ! (?nxt - 1) = CHR '','' then ?nxt - 1 else ?nxt),
                   ol_namesz := length (opt_name it) \<rparr>)"
      by (simp only: st if_P [OF B])
    also have "\<dots> = (0, located ol name cur it)"
      unfolding en using True by (auto simp: located_def split: option.splits)
    finally show ?thesis using True by simp
  next
    case False
    with cond have B: "\<not> (length name = length (opt_name it) \<and>
      take (length (opt_name it)) (drop cur s) = take (length (opt_name it)) name)" by blast
    have dn: "drop ?nxt s = join_opts its"
    proof -
      have "drop ?nxt s = drop (?nxt - cur) (drop cur s)" by simp
      also have "\<dots> = join_opts its" using d by (cases "its = []") simp_all
      finally show ?thesis .
    qed
    have "locate_loop s cur name ol = locate_loop s ?nxt name ?ol1"
      by (simp only: st if_not_P [OF B])
    also have "\<dots> = (case locate_items name its ?nxt of
        None \<Rightarrow> (1, ?ol1\<lparr> ol_value := None, ol_valsz := 0 \<rparr>)
      | Some (off, it) \<Rightarrow> (0, located ?ol1 name off it))"
      by (rule Cons.IH [OF oks dn])
    also have "\<dots> = (case locate_items name (it # its) cur of
        None \<Rightarrow> (1, ol\<lparr> ol_value := None, ol_valsz := 0 \<rparr>)
      | Some (off, it) \<Rightarrow> (0, located ol name off it))"
      using False by (cases "its = []") (auto simp: located_def split: option.splits)
    finally show ?thesis .
  qed
qed

lemma locate_items_None: "locate_items n its off = None \<longleftrightarrow> \<not> has_named n its"
  by (induction its arbitrary: off) (auto simp: has_named_def)

lemma locate_items_Some:
  "locate_items n its base = Some (off, it) \<Longrightarrow>
   \<exists>a b. its = a @ it # b \<and> \<not> has_named n a \<and> opt_name it = n \<and>
      off = base + length (join_opts a) + (if a = [] then 0 else 1) \<and>
      remove_named n its = a @ b"
proof (induction its arbitrary: base)
  case Nil
  then show ?case by simp
next
  case (Cons x xs)
  show ?case
  proof (cases "opt_name x = n")
    case True
    with Cons.prems show ?thesis
      by (intro exI [of _ "[]"] exI [of _ xs]) (simp add: has_named_def)
  next
    case False
    with Cons.prems have "locate_items n xs (base + length x + 1) = Some (off, it)" by simp
    from Cons.IH [OF this] obtain a b where
      ab: "xs = a @ it # b" "\<not> has_named n a" "opt_name it = n"
        "off = base + length x + 1 + length (join_opts a) + (if a = [] then 0 else 1)"
        "remove_named n xs = a @ b" by blast
    show ?thesis
    proof (intro exI conjI)
      show "x # xs = (x # a) @ it # b" using ab by simp
      show "\<not> has_named n (x # a)" using ab False by (simp add: has_named_def)
      show "opt_name it = n" by fact
      show "off = base + length (join_opts (x # a)) + (if x # a = [] then 0 else 1)"
        using ab by (simp add: join_opts_Cons)
      show "remove_named n (x # xs) = (x # a) @ b" using ab False by simp
    qed
  qed
qed

lemma remove_at_only: "mnt_optstr_remove_option_at it 0 (length it) = []"
  by (simp add: mnt_optstr_remove_option_at_def)

lemma remove_at_first:
  "mnt_optstr_remove_option_at (it @ CHR '','' # r) 0 (length it) = r"
  by (simp add: mnt_optstr_remove_option_at_def nth_append)

lemma remove_at_last:
  "mnt_optstr_remove_option_at (a @ CHR '','' # it) (Suc (length a)) (Suc (length a + length it)) = a"
  by (simp add: mnt_optstr_remove_option_at_def nth_append)

lemma remove_at_middle:
  "r \<noteq> [] \<Longrightarrow> mnt_optstr_remove_option_at (a @ CHR '','' # it @ CHR '','' # r) (Suc (length a))
     (Suc (length a + length it)) = a @ CHR '','' # r"
  by (simp add: mnt_optstr_remove_option_at_def nth_append)

lemma remove_at_join:
  assumes "list_all item_ok (a @ it # b)"
  shows "mnt_optstr_remove_option_at (join_opts (a @ it # b))
     (length (join_opts a) + (if a = [] then 0 else 1))
     (length (join_opts a) + (if a = [] then 0 else 1) + length it) = join_opts (a @ b)"
proof -
  from assms have b: "join_opts b = [] \<longleftrightarrow> b = []" by (intro join_opts_Nil_iff) simp
  show ?thesis
  proof (cases "a = []")
    case True
    then show ?thesis
      by (cases "b = []") (simp_all add: join_opts_Cons remove_at_only remove_at_first)
  next
    case False
    then show ?thesis
      using b remove_at_last [of "join_opts a" it]
        remove_at_middle [of "join_opts b" "join_opts a" it]
      by (cases "b = []") (simp_all add: join_opts_append join_opts_Cons)
  qed
qed

lemma remove_option_join:
  assumes "list_all item_ok its"
  shows "mnt_optstr_remove_option (Some (join_opts its)) name =
     (if has_named name its then (0, Some (join_opts (remove_named name its)))
      else (1, Some (join_opts its)))"
proof -
  have ll: "locate_loop (join_opts its) 0 name mnt_init_optloc =
     (case locate_items name its 0 of
        None \<Rightarrow> (1, mnt_init_optloc\<lparr> ol_value := None, ol_valsz := 0 \<rparr>)
      | Some (off, it) \<Rightarrow> (0, located mnt_init_optloc name off it))"
    by (rule locate_loop_join [OF assms]) simp
  show ?thesis
  proof (cases "locate_items name its 0")
    case None
    with ll locate_items_None [of name its 0] show ?thesis
      by (simp add: mnt_optstr_remove_option_def mnt_optstr_locate_option_def)
  next
    case (Some x)
    obtain off it where x: "x = (off, it)" by force
    from locate_items_Some [OF Some [unfolded x]] obtain a b where
      ab: "its = a @ it # b" "\<not> has_named name a" "opt_name it = name"
        "off = 0 + length (join_opts a) + (if a = [] then 0 else 1)"
        "remove_named name its = a @ b" by blast
    from Some locate_items_None [of name its 0] have h: "has_named name its" by simp
    from assms ab have "mnt_optstr_remove_option_at (join_opts its) off (off + length it) = join_opts (a @ b)"
      using remove_at_join [of a it b] by simp
    with ll Some x h ab(5) show ?thesis
      by (simp add: mnt_optstr_remove_option_def mnt_optstr_locate_option_def located_def)
  qed
qed

lemma name_ok_item: "name_ok n \<Longrightarrow> item_ok n \<and> opt_name n = n"
  by (simp add: name_ok_def item_ok_def opt_name_def sep_index_None [symmetric])

lemma name_value_item:
  "name_ok n \<Longrightarrow> value_ok x \<Longrightarrow> item_ok (n @ CHR ''='' # x) \<and> opt_name (n @ CHR ''='' # x) = n"
  by (simp add: name_ok_def value_ok_def item_ok_def opt_name_def unquoted_free_append
      quote_after_append sep_index_append_eq Let_def)

lemma new_item_ok:
  "name_ok n \<Longrightarrow> (case v of None \<Rightarrow> True | Some x \<Rightarrow> value_ok x) \<Longrightarrow>
   item_ok (new_item n v) \<and> opt_name (new_item n v) = n"
  using name_ok_item [of n] name_value_item [of n]
  by (auto simp: new_item_def split: option.splits)

lemma append_option_join:
  assumes "list_all item_ok its"
  shows "mnt_optstr_append_option (Some (join_opts its)) n v =
     (0, Some (join_opts (its @ [new_item n v])))"
  using join_opts_Nil_iff [OF assms]
  by (auto simp: mnt_optstr_append_option_def mnt_optstr_append_option_sz_def Let_def
      join_opts_append new_item_def split: option.splits)

lemma remove_named_last:
  "\<not> has_named n its \<Longrightarrow> opt_name it = n \<Longrightarrow> remove_named n (its @ [it]) = its"
  by (induction its) (auto simp: has_named_def)

lemma has_named_append: "has_named n (a @ b) \<longleftrightarrow> has_named n a \<or> has_named n b"
  by (auto simp: has_named_def list_ex_iff)

lemma remove_named_append:
  "has_named n its \<Longrightarrow> remove_named n (its @ ys) = remove_named n its @ ys"
  by (induction its) (auto simp: has_named_def)

text \<open>
  C4 (as amended). For an option string made of well-formed items, a well-formed name
  \<open>n\<close> and a well-formed value (or none), appending the option and then removing the
  first option named \<open>n\<close> succeeds. When no item of the string is named \<open>n\<close> it
  gives the string back exactly. When the string already holds an item named \<open>n\<close>,
  the first (older) such item is taken out and the appended one stays at the end.
\<close>

theorem append_then_remove:
  assumes "list_all item_ok its" and "name_ok n"
    and "case v of None \<Rightarrow> True | Some x \<Rightarrow> value_ok x"
  shows "mnt_optstr_remove_option (snd (mnt_optstr_append_option (Some (join_opts its)) n v)) n
     = (0, Some (join_opts (if has_named n its then remove_named n its @ [new_item n v] else its)))"
proof -
  from new_item_ok [OF assms(2,3)] have ni: "item_ok (new_item n v)" "opt_name (new_item n v) = n"
    by simp_all
  with assms(1) have ok: "list_all item_ok (its @ [new_item n v])" by simp
  have h: "has_named n (its @ [new_item n v])" using ni by (simp add: has_named_append has_named_def)
  have r: "remove_named n (its @ [new_item n v]) =
      (if has_named n its then remove_named n its @ [new_item n v] else its)"
    using remove_named_last [OF _ ni(2), of its] remove_named_append [of n its "[new_item n v]"]
    by simp
  show ?thesis
    using remove_option_join [OF ok, of n] h
    by (simp only: append_option_join [OF assms(1)] snd_conv r if_True)
qed

lemma item_name_ok: "item_ok it \<Longrightarrow> opt_name it \<noteq> [] \<Longrightarrow> name_ok (opt_name it)"
proof (cases "sep_index False it")
  case None
  assume a: "item_ok it" "opt_name it \<noteq> []"
  from None have n: "opt_name it = it" by (simp add: opt_name_def)
  from None have "unquoted_free CHR ''='' False it" by (simp add: sep_index_None)
  with a show ?thesis
    by (simp add: name_ok_def item_ok_def n)
next
  case (Some i)
  assume a: "item_ok it" "opt_name it \<noteq> []"
  have "unquoted_free CHR '','' False (take i it @ drop i it)" using a by (simp add: item_ok_def)
  then have "unquoted_free CHR '','' False (take i it)" by (simp only: unquoted_free_append)
  with sep_index_Some [OF Some] a Some show ?thesis
    by (simp add: name_ok_def opt_name_def)
qed

lemma name_ok_last: "name_ok n \<Longrightarrow> last n \<noteq> CHR '','' \<and> last n \<noteq> CHR ''=''"
  using closed_last_not [of "CHR '',''" False n] closed_last_not [of "CHR ''=''" False n]
  by (simp add: name_ok_def)

lemma item_split:
  "sep_index False it = Some i \<Longrightarrow> it = opt_name it @ CHR ''='' # drop (Suc i) it"
  using sep_index_Some [of False it i] sep_index_less [of False it i]
    id_take_nth_drop [of i it]
  by (simp add: opt_name_def)

lemma locate_option_join:
  assumes "list_all item_ok (a @ it # b)" "opt_name it = n" "\<not> has_named n a"
  shows "mnt_optstr_locate_option (Some (join_opts (a @ it # b))) n mnt_init_optloc =
     (0, located mnt_init_optloc n (length (join_opts a) + (if a = [] then 0 else 1)) it)"
proof -
  have "locate_items n (a @ it # b) base =
      Some (base + length (join_opts a) + (if a = [] then 0 else 1), it)" for base
    using assms(2,3)
  proof (induction a arbitrary: base)
    case Nil
    then show ?case by simp
  next
    case (Cons x xs)
    then show ?case by (auto simp: has_named_def join_opts_Cons)
  qed
  from this [of 0] locate_loop_join [OF assms(1), of 0 "join_opts (a @ it # b)" n mnt_init_optloc]
  show ?thesis by (simp add: mnt_optstr_locate_option_def)
qed

text \<open>The buffer around the located item.\<close>

lemma join_around:
  "join_opts (a @ it # b) =
     (if a = [] then [] else join_opts a @ '','') @ it @ (if b = [] then [] else CHR '','' # join_opts b)"
  by (simp add: join_opts_append join_opts_Cons)

lemma set_option_strings:
  assumes "n \<noteq> []" "last n \<noteq> CHR '',''" "last n \<noteq> CHR ''=''"
  shows "insert_value (pre @ n @ post) (length pre + length n) v = (0, pre @ n @ ''='' @ v @ post)"
    and "mnt_optstr_remove_option_at (pre @ n @ CHR ''='' # old @ post) (length pre + length n)
           (length pre + length n + 1 + length old) = pre @ n @ post"
    and "take (length pre + length n + 1) (pre @ n @ CHR ''='' # old @ post) @ v @
           drop (length pre + length n + 1 + length old) (pre @ n @ CHR ''='' # old @ post)
         = pre @ n @ ''='' @ v @ post"
proof -
  have ln: "(pre @ n @ xs) ! (length pre + length n - 1) = last n" for xs
  proof -
    from assms(1) have e: "length pre + length n - 1 = length pre + (length n - 1)"
      by (cases n) simp_all
    from assms(1) have "(n @ xs) ! (length n - 1) = last n"
      by (simp add: nth_append last_conv_nth)
    then show ?thesis by (simp only: e nth_append_length_plus)
  qed
  from assms(1) have pos: "0 < length pre + length n" by simp
  show "insert_value (pre @ n @ post) (length pre + length n) v = (0, pre @ n @ ''='' @ v @ post)"
    using ln [of post] assms(3) pos by (simp add: insert_value_def)
  show "take (length pre + length n + 1) (pre @ n @ CHR ''='' # old @ post) @ v @
           drop (length pre + length n + 1 + length old) (pre @ n @ CHR ''='' # old @ post)
         = pre @ n @ ''='' @ v @ post"
    by simp
  let ?s = "pre @ n @ CHR ''='' # old @ post"
  let ?b = "length pre + length n"
  have A: "?s ! (?b - 1) \<noteq> CHR '',''" using ln [of "CHR ''='' # old @ post"] assms(2) by simp
  have A2: "(pre @ n @ post) ! (?b - 1) \<noteq> CHR '',''" using ln [of post] assms(2) by simp
  have T: "take ?b ?s = pre @ n" by simp
  have D: "drop (?b + 1 + length old) ?s = post" by simp
  have b0: "?b \<noteq> 0" using assms(1) by simp
  show "mnt_optstr_remove_option_at ?s ?b (?b + 1 + length old) = pre @ n @ post"
    unfolding mnt_optstr_remove_option_at_def Let_def
    by (simp only: b0 A T D A2 simp_thms if_False append_assoc)
qed

lemma set_option_located:
  assumes "mnt_optstr_locate_option (Some s) n mnt_init_optloc = (0, ol)"
    and "ol_begin ol = Some b" "ol_end ol = Some e"
  shows "mnt_optstr_set_option (Some s) n (Some v) =
     (case ol_value ol of
        None \<Rightarrow> (case insert_value s (b + ol_namesz ol) v of (rc1, s1) \<Rightarrow> (rc1, Some s1))
      | Some vp \<Rightarrow>
          if length v = ol_valsz ol
          then (0, Some (take vp s @ v @ drop (vp + ol_valsz ol) s))
          else (case insert_value (mnt_optstr_remove_option_at s (b + ol_namesz ol) e)
                       (b + ol_namesz ol) v of (rc1, s1) \<Rightarrow> (rc1, Some s1)))"
  using assms by (simp add: mnt_optstr_set_option_def Let_def split: option.splits)

theorem set_option_in_place:
  assumes "list_all item_ok (a @ it # b)" and "opt_name it = n" and "n \<noteq> []"
    and "\<not> has_named n a"
  shows "mnt_optstr_set_option (Some (join_opts (a @ it # b))) n (Some v) =
     (0, Some (join_opts (a @ (n @ ''='' @ v) # b)))"
proof -
  define pre where "pre = (if a = [] then [] else join_opts a @ '','')"
  define post where "post = (if b = [] then [] else CHR '','' # join_opts b)"
  have ja: "join_opts (a @ x # b) = pre @ x @ post" for x
    by (simp add: pre_def post_def join_around)
  have off: "length (join_opts a) + (if a = [] then 0 else 1) = length pre"
    by (simp add: pre_def)
  from assms have ok: "item_ok it" by simp
  from item_name_ok [OF ok] assms(2,3) have nok: "name_ok n" by simp
  from name_ok_last [OF nok] have ln: "last n \<noteq> CHR '',''" "last n \<noteq> CHR ''=''" by simp_all
  note ss = set_option_strings [OF assms(3) ln, of pre]
  let ?ol = "located mnt_init_optloc n (length pre) it"
  have loc: "mnt_optstr_locate_option (Some (pre @ it @ post)) n mnt_init_optloc = (0, ?ol)"
    using locate_option_join [OF assms(1,2,4)] by (simp only: off ja)
  have olb: "ol_begin ?ol = Some (length pre)" "ol_end ?ol = Some (length pre + length it)"
    "ol_namesz ?ol = length n"
    by (simp_all add: located_def)
  note so = set_option_located [OF loc olb(1,2), of v, unfolded olb(3)]
  have "mnt_optstr_set_option (Some (pre @ it @ post)) n (Some v) =
      (0, Some (pre @ (n @ ''='' @ v) @ post))"
  proof (cases "sep_index False it")
    case None
    with assms(2) have it: "it = n" by (simp add: opt_name_def)
    from None have olv: "ol_value ?ol = None" by (simp add: located_def)
    show ?thesis
      by (subst so) (simp only: olv option.case, simp add: it ss(1))
  next
    case (Some i)
    let ?old = "drop (Suc i) it"
    from item_split [OF Some] assms(2) have it: "it = n @ CHR ''='' # ?old" by simp
    from sep_index_less [OF Some] have il: "i < length it" .
    from Some assms(2) il have i: "i = length n" by (auto simp: opt_name_def)
    have lit: "length it = length n + 1 + length ?old" using il i by simp
    from Some have olv: "ol_value ?ol = Some (length pre + length n + 1)"
      "ol_valsz ?ol = length ?old"
      by (simp_all add: located_def i)
    have e: "length pre + length it = length pre + length n + 1 + length ?old"
      using lit by simp
    have s: "pre @ it @ post = pre @ n @ CHR ''='' # ?old @ post"
      using it by (metis append_Cons append_assoc)
    show ?thesis
    proof (cases "length v = length ?old")
      case True
      show ?thesis
        by (subst so) (simp only: olv option.case True if_True e s ss(3) [of ?old post v], simp)
    next
      case False
      show ?thesis
        by (subst so)
          (simp only: olv option.case False if_False e s ss(2) [of ?old post] ss(1) [of post v],
            simp)
    qed
  qed
  then show ?thesis by (simp only: ja)
qed

lemma set_option_absent:
  assumes "list_all item_ok its" "\<not> has_named n its"
  shows "mnt_optstr_set_option (Some (join_opts its)) n val =
     mnt_optstr_append_option (Some (join_opts its)) n val"
proof -
  have "locate_loop (join_opts its) 0 n mnt_init_optloc =
      (1, mnt_init_optloc\<lparr> ol_value := None, ol_valsz := 0 \<rparr>)"
    using locate_loop_join [OF assms(1), of 0 "join_opts its" n mnt_init_optloc]
      locate_items_None [of n its 0] assms(2) by simp
  then show ?thesis
    by (simp add: mnt_optstr_set_option_def mnt_optstr_locate_option_def)
qed

lemma remove_named_absent: "\<not> has_named n its \<Longrightarrow> remove_named n its = its"
  by (induction its) (auto simp: has_named_def)

lemma remove_option_join2:
  assumes "list_all item_ok its"
  shows "mnt_optstr_remove_option (Some (join_opts its)) n =
     ((if has_named n its then 0 else 1), Some (join_opts (remove_named n its)))"
  using remove_option_join [OF assms, of n] remove_named_absent [of n its] by simp

lemma remove_named_ok: "list_all item_ok its \<Longrightarrow> list_all item_ok (remove_named n its)"
  by (induction its) auto

lemma has_named_count: "has_named n its \<longleftrightarrow> 0 < count_named n its"
  by (induction its) (auto simp: has_named_def count_named_def)

lemma count_remove_same: "count_named n (remove_named n its) = count_named n its - 1"
  by (induction its) (auto simp: count_named_def)

lemma count_remove_other: "m \<noteq> n \<Longrightarrow> count_named m (remove_named n its) = count_named m its"
  by (induction its) (auto simp: count_named_def)

lemma remove_once_filter:
  "count_named n its \<le> 1 \<Longrightarrow> remove_named n its = filter (\<lambda>it. opt_name it \<noteq> n) its"
proof (induction its)
  case Nil
  then show ?case by simp
next
  case (Cons x xs)
  show ?case
  proof (cases "opt_name x = n")
    case True
    with Cons.prems have "count_named n xs = 0" by (simp add: count_named_def)
    then have "filter (\<lambda>it. opt_name it \<noteq> n) xs = xs"
      by (simp add: count_named_def filter_id_conv filter_empty_conv)
    with True show ?thesis by simp
  next
    case False
    with Cons show ?thesis by (simp add: count_named_def)
  qed
qed

lemma remove_twice_filter:
  "count_named n its \<le> 2 \<Longrightarrow>
   remove_named n (remove_named n its) = filter (\<lambda>it. opt_name it \<noteq> n) its"
proof (induction its)
  case Nil
  then show ?case by simp
next
  case (Cons x xs)
  show ?case
  proof (cases "opt_name x = n")
    case True
    with Cons.prems have "count_named n xs \<le> 1" by (simp add: count_named_def)
    from remove_once_filter [OF this] True show ?thesis by simp
  next
    case False
    with Cons show ?thesis by (simp add: count_named_def)
  qed
qed

lemma remove_filter_other:
  "m \<noteq> n \<Longrightarrow> remove_named n (filter (\<lambda>it. opt_name it \<noteq> m) its) =
     filter (\<lambda>it. opt_name it \<noteq> m) (remove_named n its)"
  by (induction its) auto

lemma count_filter_other:
  "m \<noteq> n \<Longrightarrow> count_named n (filter (\<lambda>it. opt_name it \<noteq> m) its) = count_named n its"
  by (induction its) (auto simp: count_named_def)

lemma merge_items_body:
  assumes "count_named ''rw'' its + count_named ''ro'' its \<le> 2"
  shows "tl (merge_items its) = filter (\<lambda>it. \<not> is_rw_ro it) its"
proof -
  let ?F = "filter (\<lambda>it. opt_name it \<noteq> ''rw'') its"
  have ne: "''rw'' \<noteq> ''ro''" by simp
  from assms have rw2: "count_named ''rw'' its \<le> 2" by simp
  have x2: "remove_named ''rw'' (remove_named ''rw'' its) = ?F"
    by (rule remove_twice_filter [OF rw2])
  have cro: "count_named ''ro'' ?F = count_named ''ro'' its"
    by (rule count_filter_other [OF ne])
  have ff: "filter (\<lambda>it. opt_name it \<noteq> ''ro'') ?F = filter (\<lambda>it. \<not> is_rw_ro it) its"
    by (simp add: is_rw_ro_def conj_commute)
  consider (two) "count_named ''rw'' its = 2" | (one) "count_named ''rw'' its = 1"
    | (zero) "count_named ''rw'' its = 0"
    using rw2 by linarith
  then show ?thesis
  proof cases
    case two
    with assms cro have "count_named ''ro'' ?F = 0" by simp
    then have "filter (\<lambda>it. opt_name it \<noteq> ''ro'') ?F = ?F"
      unfolding count_named_def by (simp only: length_0_conv filter_empty_conv filter_id_conv)
    with ff have "?F = filter (\<lambda>it. \<not> is_rw_ro it) its" by simp
    with two x2 show ?thesis by (simp add: merge_items_def)
  next
    case one
    with assms cro have "count_named ''ro'' ?F \<le> 1" by simp
    from remove_once_filter [OF this] one x2 ff show ?thesis
      by (simp add: merge_items_def)
  next
    case zero
    with assms cro have "count_named ''ro'' ?F \<le> 2" by simp
    from remove_twice_filter [OF this] zero x2 ff show ?thesis
      by (simp add: merge_items_def)
  qed
qed

lemma merge_optstr_steps:
  assumes "v \<noteq> f"
    and "mnt_optstr_remove_option (Some (v @ CHR '','' # f)) ''rw'' = (c1, Some s1)"
    and "mnt_optstr_remove_option (Some s1) ''rw'' = (c2, Some s2)"
    and "mnt_optstr_remove_option (Some s2) ''ro'' = (c3, Some s3)"
    and "mnt_optstr_remove_option (Some s3) ''ro'' = (c4, Some s4)"
  shows "merge_optstr (Some v) (Some f) =
     (if c1 = 0 \<and> c2 = 0
      then (if s2 = [] then Some ''rw'' else Some (''rw,'' @ s2))
      else if c3 = 0 \<and> (c1 = 0 \<or> c2 = 0)
      then (if s3 = [] then Some ''ro'' else Some (''ro,'' @ s3))
      else if c3 = 0 \<or> c4 = 0
      then (if s4 = [] then Some ''ro'' else Some (''ro,'' @ s4))
      else (if s4 = [] then Some ''rw'' else Some (''rw,'' @ s4)))"
  using assms by (simp add: merge_optstr_def Let_def)

lemma merge_optstr_join:
  assumes "list_all item_ok a" "list_all item_ok b" "a \<noteq> []" "b \<noteq> []"
    and "join_opts a \<noteq> join_opts b"
  shows "merge_optstr (Some (join_opts a)) (Some (join_opts b)) =
     Some (join_opts (merge_items (a @ b)))"
proof -
  let ?its = "a @ b"
  let ?x1 = "remove_named ''rw'' ?its"
  let ?x2 = "remove_named ''rw'' ?x1"
  let ?x3 = "remove_named ''ro'' ?x2"
  let ?x4 = "remove_named ''ro'' ?x3"
  have ok: "list_all item_ok ?its" using assms by simp
  note ok1 = remove_named_ok [OF ok, of "''rw''"]
  note ok2 = remove_named_ok [OF ok1, of "''rw''"]
  note ok3 = remove_named_ok [OF ok2, of "''ro''"]
  note ok4 = remove_named_ok [OF ok3, of "''ro''"]
  have p0: "join_opts a @ CHR '','' # join_opts b = join_opts ?its"
    using assms(3,4) by (simp add: join_opts_append)
  note r1 = remove_option_join2 [OF ok, of "''rw''", folded p0]
  note r2 = remove_option_join2 [OF ok1, of "''rw''"]
  note r3 = remove_option_join2 [OF ok2, of "''ro''"]
  note r4 = remove_option_join2 [OF ok3, of "''ro''"]
  note m = merge_optstr_steps [OF assms(5) r1 r2 r3 r4]
  have ne: "''ro'' \<noteq> ''rw''" by simp
  have h1: "has_named ''rw'' ?its \<longleftrightarrow> 1 \<le> count_named ''rw'' ?its"
    by (simp add: has_named_count Suc_le_eq)
  have h2: "has_named ''rw'' ?x1 \<longleftrightarrow> 2 \<le> count_named ''rw'' ?its"
    by (simp add: has_named_count count_remove_same) arith
  have h3: "has_named ''ro'' ?x2 \<longleftrightarrow> has_named ''ro'' ?its"
    by (simp add: has_named_count count_remove_other [OF ne])
  have finrw: "(if join_opts body = [] then Some ''rw'' else Some (''rw,'' @ join_opts body)) =
      Some (join_opts (''rw'' # body))" if "list_all item_ok body" for body
    using join_opts_Nil_iff [OF that] by (cases body) (simp_all add: join_opts_Cons)
  have finro: "(if join_opts body = [] then Some ''ro'' else Some (''ro,'' @ join_opts body)) =
      Some (join_opts (''ro'' # body))" if "list_all item_ok body" for body
    using join_opts_Nil_iff [OF that] by (cases body) (simp_all add: join_opts_Cons)
  note fins = finrw [OF ok2] finro [OF ok3] finro [OF ok4] finrw [OF ok4]
  have m': "merge_optstr (Some (join_opts a)) (Some (join_opts b)) =
     (if has_named ''rw'' ?its \<and> has_named ''rw'' ?x1 then Some (join_opts (''rw'' # ?x2))
      else if has_named ''ro'' ?x2 \<and> (has_named ''rw'' ?its \<or> has_named ''rw'' ?x1)
      then Some (join_opts (''ro'' # ?x3))
      else if has_named ''ro'' ?x2 \<or> has_named ''ro'' ?x3 then Some (join_opts (''ro'' # ?x4))
      else Some (join_opts (''rw'' # ?x4)))"
    by (simp only: m fins) (simp del: join_opts.simps)
  have f1: "?x3 = ?x2" "\<not> has_named ''ro'' ?x3" "?x4 = ?x2" if "\<not> has_named ''ro'' ?x2"
    using that by (simp_all add: remove_named_absent)
  consider (two) "2 \<le> count_named ''rw'' ?its" | (one) "count_named ''rw'' ?its = 1"
    | (zero) "count_named ''rw'' ?its = 0"
    by linarith
  then show ?thesis
  proof cases
    case two
    with h1 h2 have "has_named ''rw'' ?its" "has_named ''rw'' ?x1" by simp_all
    with two show ?thesis unfolding m' by (simp add: merge_items_def Let_def)
  next
    case one
    with h1 h2 have c: "has_named ''rw'' ?its" "\<not> has_named ''rw'' ?x1" by simp_all
    show ?thesis
    proof (cases "has_named ''ro'' ?x2")
      case True
      with c one h3 show ?thesis unfolding m'
        by (simp add: merge_items_def Let_def del: join_opts.simps)
    next
      case False
      with c one h3 f1 [OF False] show ?thesis unfolding m'
        by (simp add: merge_items_def Let_def del: join_opts.simps)
    qed
  next
    case zero
    with h1 h2 have c: "\<not> has_named ''rw'' ?its" "\<not> has_named ''rw'' ?x1" by simp_all
    show ?thesis
    proof (cases "has_named ''ro'' ?x2")
      case True
      with c zero h3 show ?thesis unfolding m'
        by (simp add: merge_items_def Let_def del: join_opts.simps)
    next
      case False
      with c zero h3 f1 [OF False] show ?thesis unfolding m'
        by (simp add: merge_items_def Let_def del: join_opts.simps)
    qed
  qed
qed

lemma merge_items_hd:
  "hd (merge_items its) =
     (if has_named ''ro'' its \<and> count_named ''rw'' its < 2 then ''ro'' else ''rw'')"
  by (simp add: merge_items_def Let_def)

lemma count_named_append: "count_named n (a @ b) = count_named n a + count_named n b"
  by (simp add: count_named_def)

lemma merge_items_flags:
  assumes "count_named ''rw'' its + count_named ''ro'' its \<le> 2"
  shows "merge_items its =
     (if has_named ''ro'' its then ''ro'' else ''rw'') # filter (\<lambda>it. \<not> is_rw_ro it) its"
proof -
  have ne: "merge_items its \<noteq> []" by (simp add: merge_items_def Let_def)
  from assms have "has_named ''ro'' its \<Longrightarrow> count_named ''rw'' its < 2"
    by (simp add: has_named_count)
  then have "hd (merge_items its) = (if has_named ''ro'' its then ''ro'' else ''rw'')"
    by (simp only: merge_items_hd) simp
  with merge_items_body [OF assms] ne show ?thesis
    by (cases "merge_items its") simp_all
qed

text \<open>
  C1 (as amended). Two equal strings are returned as they are. For two different,
  non-empty strings of well-formed items that hold at most two items named rw or ro
  together, the result is a single leading rw or ro followed by the items of both inputs
  in order without the items named rw or ro; the flag is ro exactly when some input holds
  ro, and rw otherwise.
  \<open>merge("rw,noexec", "ro,journal=update")\<close> is \<open>"ro,noexec,journal=update"\<close>.
\<close>

theorem merge_optstr_rule:
  "merge_optstr (Some v) (Some v) = Some v
   \<and> (list_all item_ok a \<and> list_all item_ok b \<and> a \<noteq> [] \<and> b \<noteq> [] \<and> join_opts a \<noteq> join_opts b
      \<and> count_named ''rw'' (a @ b) + count_named ''ro'' (a @ b) \<le> 2 \<longrightarrow>
        merge_optstr (Some (join_opts a)) (Some (join_opts b)) =
          Some (join_opts ((if has_named ''ro'' a \<or> has_named ''ro'' b then ''ro'' else ''rw'')
                           # filter (\<lambda>it. \<not> is_rw_ro it) (a @ b))))
   \<and> merge_optstr (Some ''rw,noexec'') (Some ''ro,journal=update'') = Some ''ro,noexec,journal=update''
   \<and> mnt_fs_strdup_options (mnt_new_fs\<lparr> vfs_optstr := Some ''rw,noexec'',
          fs_optstr := Some ''ro,journal=update'' \<rparr>) = Some ''ro,noexec,journal=update''"
proof (intro conjI impI)
  show "merge_optstr (Some v) (Some v) = Some v" by (simp add: merge_optstr_def)
next
  assume h: "list_all item_ok a \<and> list_all item_ok b \<and> a \<noteq> [] \<and> b \<noteq> [] \<and> join_opts a \<noteq> join_opts b
      \<and> count_named ''rw'' (a @ b) + count_named ''ro'' (a @ b) \<le> 2"
  then have m: "merge_optstr (Some (join_opts a)) (Some (join_opts b)) =
      Some (join_opts (merge_items (a @ b)))"
    by (intro merge_optstr_join) simp_all
  from h have c: "count_named ''rw'' (a @ b) + count_named ''ro'' (a @ b) \<le> 2" by simp
  show "merge_optstr (Some (join_opts a)) (Some (join_opts b)) =
          Some (join_opts ((if has_named ''ro'' a \<or> has_named ''ro'' b then ''ro'' else ''rw'')
                           # filter (\<lambda>it. \<not> is_rw_ro it) (a @ b)))"
    by (simp only: m merge_items_flags [OF c] has_named_append)
next
  have ok: "list_all item_ok [''rw'', ''noexec'']" "list_all item_ok [''ro'', ''journal=update'']"
    by (simp_all add: item_ok_def)
  have m: "merge_optstr (Some ''rw,noexec'') (Some ''ro,journal=update'') = Some ''ro,noexec,journal=update''"
    using merge_optstr_join [OF ok]
    by (simp add: merge_items_def count_named_def has_named_def opt_name_def)
  show "merge_optstr (Some ''rw,noexec'') (Some ''ro,journal=update'') = Some ''ro,noexec,journal=update''"
    by (rule m)
  show "mnt_fs_strdup_options (mnt_new_fs\<lparr> vfs_optstr := Some ''rw,noexec'',
          fs_optstr := Some ''ro,journal=update'' \<rparr>) = Some ''ro,noexec,journal=update''"
    by (simp add: mnt_fs_strdup_options_def m mnt_new_fs_def)
qed

theorem merge_optstr_rule_witness:
  "list_all item_ok [''ro'', ''noexec''] \<and> list_all item_ok [''rw'', ''user=x'']
   \<and> [''ro'', ''noexec''] \<noteq> [] \<and> [''rw'', ''user=x''] \<noteq> []
   \<and> join_opts [''ro'', ''noexec''] \<noteq> join_opts [''rw'', ''user=x'']
   \<and> count_named ''rw'' ([''ro'', ''noexec''] @ [''rw'', ''user=x''])
       + count_named ''ro'' ([''ro'', ''noexec''] @ [''rw'', ''user=x'']) \<le> 2
   \<and> merge_optstr (Some ''ro,noexec'') (Some ''rw,user=x'') = Some ''ro,noexec,user=x''"
proof -
  have h: "list_all item_ok [''ro'', ''noexec''] \<and> list_all item_ok [''rw'', ''user=x'']
     \<and> [''ro'', ''noexec''] \<noteq> [] \<and> [''rw'', ''user=x''] \<noteq> []
     \<and> join_opts [''ro'', ''noexec''] \<noteq> join_opts [''rw'', ''user=x'']
     \<and> count_named ''rw'' ([''ro'', ''noexec''] @ [''rw'', ''user=x''])
       + count_named ''ro'' ([''ro'', ''noexec''] @ [''rw'', ''user=x'']) \<le> 2"
    by (simp add: item_ok_def count_named_def opt_name_def)
  have "merge_optstr (Some (join_opts [''ro'', ''noexec''])) (Some (join_opts [''rw'', ''user=x''])) =
      Some (join_opts ((if has_named ''ro'' [''ro'', ''noexec''] \<or> has_named ''ro'' [''rw'', ''user=x'']
                        then ''ro'' else ''rw'')
                       # filter (\<lambda>it. \<not> is_rw_ro it) ([''ro'', ''noexec''] @ [''rw'', ''user=x''])))"
    by (rule merge_optstr_rule [THEN conjunct2, THEN conjunct1, THEN mp, OF h])
  then have "merge_optstr (Some ''ro,noexec'') (Some ''rw,user=x'') = Some ''ro,noexec,user=x''"
    by (simp add: has_named_def is_rw_ro_def opt_name_def)
  with h show ?thesis by (simp only: simp_thms)
qed

text \<open>
  The claim as stated promises a leading flag for every pair and read-only unless both
  inputs hold rw. Equal inputs come back without a flag, and inputs with neither rw nor ro
  come back read-write.
\<close>

theorem merge_optstr_no_flag_counterexample:
  "merge_optstr (Some ''noexec'') (Some ''noexec'') = Some ''noexec''
   \<and> merge_optstr (Some ''noexec'') (Some ''nosuid'') = Some ''rw,noexec,nosuid''"
proof -
  have ok: "list_all item_ok [''noexec'']" "list_all item_ok [''nosuid'']"
    by (simp_all add: item_ok_def)
  have "merge_optstr (Some ''noexec'') (Some ''nosuid'') = Some ''rw,noexec,nosuid''"
    using merge_optstr_join [OF ok]
    by (simp add: merge_items_def count_named_def has_named_def opt_name_def)
  then show ?thesis by (simp add: merge_optstr_def)
qed

theorem append_then_remove_witness:
  "list_all item_ok [''rw'', ''uid=0''] \<and> name_ok ''gid'' \<and> value_ok ''5''
   \<and> \<not> has_named ''gid'' [''rw'', ''uid=0''] \<and> has_named ''uid'' [''rw'', ''uid=0'']
   \<and> mnt_optstr_append_option (Some ''rw,uid=0'') ''gid'' (Some ''5'') = (0, Some ''rw,uid=0,gid=5'')
   \<and> mnt_optstr_remove_option (Some ''rw,uid=0,gid=5'') ''gid'' = (0, Some ''rw,uid=0'')
   \<and> mnt_optstr_append_option (Some ''rw,uid=0'') ''uid'' (Some ''7'') = (0, Some ''rw,uid=0,uid=7'')
   \<and> mnt_optstr_remove_option (Some ''rw,uid=0,uid=7'') ''uid'' = (0, Some ''rw,uid=7'')"
proof -
  have h: "list_all item_ok [''rw'', ''uid=0'']" "name_ok ''gid''"
    "case Some ''5'' of None \<Rightarrow> True | Some x \<Rightarrow> value_ok x"
    and g: "\<not> has_named ''gid'' [''rw'', ''uid=0'']"
    by (simp_all add: item_ok_def name_ok_def value_ok_def has_named_def opt_name_def)
  have k: "name_ok ''uid''" "case Some ''7'' of None \<Rightarrow> True | Some x \<Rightarrow> value_ok x"
    and u: "has_named ''uid'' [''rw'', ''uid=0'']"
    by (simp_all add: name_ok_def value_ok_def has_named_def opt_name_def)
  have a: "mnt_optstr_append_option (Some ''rw,uid=0'') ''gid'' (Some ''5'') = (0, Some ''rw,uid=0,gid=5'')"
    by (simp add: mnt_optstr_append_option_def mnt_optstr_append_option_sz_def)
  have b: "mnt_optstr_append_option (Some ''rw,uid=0'') ''uid'' (Some ''7'') = (0, Some ''rw,uid=0,uid=7'')"
    by (simp add: mnt_optstr_append_option_def mnt_optstr_append_option_sz_def)
  have r1: "mnt_optstr_remove_option (Some ''rw,uid=0,gid=5'') ''gid'' = (0, Some ''rw,uid=0'')"
    using append_then_remove [OF h] g by (simp add: a)
  have r2: "mnt_optstr_remove_option (Some ''rw,uid=0,uid=7'') ''uid'' = (0, Some ''rw,uid=7'')"
    using append_then_remove [OF h(1) k] u by (simp add: b new_item_def opt_name_def)
  from h g k u a b r1 r2 show ?thesis by simp
qed

text \<open>
  The claim as stated also covers strings that already hold an option named \<open>n\<close>.
  There the removal takes the older item, not the appended one.
\<close>

theorem append_then_remove_counterexample:
  "mnt_optstr_append_option (Some ''a,b'') ''a'' (Some ''v'') = (0, Some ''a,b,a=v'')
   \<and> mnt_optstr_remove_option (Some ''a,b,a=v'') ''a'' = (0, Some ''b,a=v'')"
proof -
  have ok: "list_all item_ok [''a'', ''b'', ''a=v'']" by (simp add: item_ok_def)
  from remove_option_join [OF ok, of "''a''"] show ?thesis
    by (simp add: mnt_optstr_append_option_def mnt_optstr_append_option_sz_def
        has_named_def opt_name_def)
qed

text \<open>
  C5 (as amended). On a string of well-formed items whose first item named \<open>n\<close> is
  \<open>it\<close>, setting a value puts \<open>n=value\<close> where \<open>it\<close> stood, whatever the
  lengths of the old and the new value: the items before and after it keep their places.
  When no item is named \<open>n\<close> the option is appended.
\<close>

theorem set_option_in_place_or_append:
  "(list_all item_ok (a @ it # b) \<and> opt_name it = n \<and> n \<noteq> [] \<and> \<not> has_named n a \<longrightarrow>
      mnt_optstr_set_option (Some (join_opts (a @ it # b))) n (Some v) =
        (0, Some (join_opts (a @ (n @ ''='' @ v) # b))))
   \<and> (list_all item_ok its \<and> \<not> has_named n its \<longrightarrow>
      mnt_optstr_set_option (Some (join_opts its)) n val =
        mnt_optstr_append_option (Some (join_opts its)) n val
      \<and> mnt_optstr_append_option (Some (join_opts its)) n val =
        (0, Some (join_opts (its @ [new_item n val]))))"
  using set_option_in_place [of a it b n v] set_option_absent [of its n val]
    append_option_join [of its n val]
  by blast

theorem set_option_in_place_or_append_witness:
  "list_all item_ok ([] @ ''a=1'' # [''b'']) \<and> opt_name ''a=1'' = ''a'' \<and> ''a'' \<noteq> []
   \<and> \<not> has_named ''a'' []
   \<and> mnt_optstr_set_option (Some ''a=1,b'') ''a'' (Some ''22'') = (0, Some ''a=22,b'')
   \<and> list_all item_ok [''a=1'', ''b''] \<and> \<not> has_named ''c'' [''a=1'', ''b'']
   \<and> mnt_optstr_set_option (Some ''a=1,b'') ''c'' (Some ''x'') = (0, Some ''a=1,b,c=x'')"
proof -
  have h1: "list_all item_ok ([] @ ''a=1'' # [''b'']) \<and> opt_name ''a=1'' = ''a'' \<and> ''a'' \<noteq> []
     \<and> \<not> has_named ''a'' []"
    by (simp add: item_ok_def opt_name_def has_named_def)
  have h2: "list_all item_ok [''a=1'', ''b''] \<and> \<not> has_named ''c'' [''a=1'', ''b'']"
    by (simp add: item_ok_def opt_name_def has_named_def)
  from set_option_in_place_or_append [where a = "[]" and it = "''a=1''" and b = "[''b'']"
      and n = "''a''" and v = "''22''"]
    set_option_in_place_or_append [where its = "[''a=1'', ''b'']" and n = "''c''"
      and val = "Some ''x''"] h1 h2
  have "mnt_optstr_set_option (Some (join_opts ([] @ ''a=1'' # [''b'']))) ''a'' (Some ''22'') =
        (0, Some (join_opts ([] @ (''a'' @ ''='' @ ''22'') # [''b''])))"
    and "mnt_optstr_set_option (Some (join_opts [''a=1'', ''b''])) ''c'' (Some ''x'') =
        (0, Some (join_opts ([''a=1'', ''b''] @ [new_item ''c'' (Some ''x'')])))"
    by simp_all
  then have "mnt_optstr_set_option (Some ''a=1,b'') ''a'' (Some ''22'') = (0, Some ''a=22,b'')"
    and "mnt_optstr_set_option (Some ''a=1,b'') ''c'' (Some ''x'') = (0, Some ''a=1,b,c=x'')"
    by (simp_all add: new_item_def)
  with h1 h2 show ?thesis by blast
qed

text \<open>
  The claim as stated moves the item to the end when the new value has another length
  (remove, then append). The code rewrites the value at the place of the item.
\<close>

theorem set_option_keeps_position_counterexample:
  "mnt_optstr_set_option (Some ''a=1,b'') ''a'' (Some ''22'') = (0, Some ''a=22,b'')
   \<and> mnt_optstr_append_option (snd (mnt_optstr_remove_option (Some ''a=1,b'') ''a'')) ''a'' (Some ''22'')
       = (0, Some ''b,a=22'')"
proof -
  have ok: "list_all item_ok ([] @ ''a=1'' # [''b''])" by (simp add: item_ok_def)
  have n: "opt_name ''a=1'' = ''a''" by (simp add: opt_name_def)
  have "mnt_optstr_set_option (Some ''a=1,b'') ''a'' (Some ''22'') = (0, Some ''a=22,b'')"
    using set_option_in_place [OF ok n, of "''22''"] by (simp add: has_named_def)
  moreover have "mnt_optstr_remove_option (Some ''a=1,b'') ''a'' = (0, Some ''b'')"
    using remove_option_join [of "[''a=1'', ''b'']" "''a''"]
    by (simp add: item_ok_def has_named_def opt_name_def)
  ultimately show ?thesis
    by (simp add: mnt_optstr_append_option_def mnt_optstr_append_option_sz_def)
qed

subsection \<open>Table parser\<close>

lemma parse_next_failed_line:
  assumes "fgets BUFSIZ f = (Some buf, f1)" and "CHR 0x0A \<in> set buf"
    and "chomp_line buf = s"
    and "s \<noteq> []" "hd s \<noteq> CHR ''#''"
    and "fmt tb = MNT_FMT_FSTAB" and "mnt_parse_tab_line lp fs s = (e, fs1)" and "e \<noteq> 0"
  shows "mnt_tab_parse_next lp tb f fs filename nlines =
     (parse_next_err tb filename (nlines + 1), tb, f1, fs1, nlines + 1)"
  using assms by (simp add: mnt_tab_parse_next.simps [of lp tb f] Let_def)

text \<open>
  C8 (the code departs from the claim). When a line of a classic table fails to parse, the
  error callback returns a value greater than 1 and the stream is not at its end, the
  loop of \<open>mnt_tab_parse_stream\<close> stops and returns that value: the table is left as
  it was and the lines that follow are not read. Only the value 1 makes the loop skip the
  line and go on, although the documentation of \<open>mnt_tab_set_parser_errcb\<close> promises
  that for every positive value.
\<close>

theorem parse_stream_positive_callback_aborts:
  assumes "\<not> feof f" and "fgets BUFSIZ f = (Some buf, f1)" and "CHR 0x0A \<in> set buf"
    and "chomp_line buf = s"
    and "s \<noteq> []" and "hd s \<noteq> CHR ''#''"
    and "fmt tb = MNT_FMT_FSTAB" and "mnt_parse_tab_line lp mnt_new_fs s = (e, fs1)" and "e \<noteq> 0"
    and "errcb tb = Some cb" and "cb filename (nlines + 1) = k" and "1 < k" and "\<not> feof f1"
  shows "parse_stream_loop lp tb f filename nlines = (k, tb, f1)"
proof -
  have "mnt_tab_parse_next lp tb f mnt_new_fs filename nlines =
     (parse_next_err tb filename (nlines + 1), tb, f1, fs1, nlines + 1)"
    by (rule parse_next_failed_line [OF assms(2-9)])
  moreover have "parse_next_err tb filename (nlines + 1) = k"
    using assms(10,11) by (simp add: parse_next_err_def)
  ultimately show ?thesis
    using assms(1,12,13) by (simp add: parse_stream_loop.simps [of lp tb f])
qed

theorem parse_stream_positive_callback_aborts_witness:
  "\<not> feof example_stream
   \<and> fgets BUFSIZ example_stream =
       (Some (''bad'' @ [CHR 0x0A]), \<lparr> content = ''/dev/sda1'' @ [CHR 0x0A], feof = False \<rparr>)
   \<and> mnt_parse_tab_line example_line_parsers mnt_new_fs ''bad'' = (- EINVAL, mnt_new_fs)
   \<and> mnt_tab_parse_stream example_line_parsers
        ((empty_tab (Some (\<lambda>fn ln. 2)))\<lparr> fmt := MNT_FMT_FSTAB \<rparr>) example_stream ''fstab'' =
       (2, (empty_tab (Some (\<lambda>fn ln. 2)))\<lparr> fmt := MNT_FMT_FSTAB \<rparr>,
        \<lparr> content = ''/dev/sda1'' @ [CHR 0x0A], feof = False \<rparr>)
   \<and> fst (mnt_tab_parse_stream example_line_parsers
        ((empty_tab (Some (\<lambda>fn ln. 1)))\<lparr> fmt := MNT_FMT_FSTAB \<rparr>) example_stream ''fstab'') = 0
   \<and> map source (ents (fst (snd (mnt_tab_parse_stream example_line_parsers
        ((empty_tab (Some (\<lambda>fn ln. 1)))\<lparr> fmt := MNT_FMT_FSTAB \<rparr>) example_stream ''fstab''))))
       = [Some ''/dev/sda1'']"
proof -
  let ?tb = "(empty_tab (Some (\<lambda>fn ln. 2)))\<lparr> fmt := MNT_FMT_FSTAB \<rparr>"
  let ?f1 = "\<lparr> content = ''/dev/sda1'' @ [CHR 0x0A], feof = False \<rparr>"
  have a: "\<not> feof example_stream" by (simp add: example_stream_def)
  have b: "fgets BUFSIZ example_stream = (Some (''bad'' @ [CHR 0x0A]), ?f1)"
    by (simp add: fgets_def example_stream_def BUFSIZ_def)
  have c: "mnt_parse_tab_line example_line_parsers mnt_new_fs ''bad'' = (- EINVAL, mnt_new_fs)"
    by (simp add: example_line_parsers_def)
  have d: "parse_stream_loop example_line_parsers ?tb example_stream ''fstab'' 0 = (2, ?tb, ?f1)"
    by (rule parse_stream_positive_callback_aborts [OF a b _ _ _ _ _ c])
      (simp_all add: empty_tab_def EINVAL_def chomp_line_def)
  have e: "fst (mnt_tab_parse_stream example_line_parsers
        ((empty_tab (Some (\<lambda>fn ln. 1)))\<lparr> fmt := MNT_FMT_FSTAB \<rparr>) example_stream ''fstab'') = 0"
    by code_simp
  have g: "map source (ents (fst (snd (mnt_tab_parse_stream example_line_parsers
        ((empty_tab (Some (\<lambda>fn ln. 1)))\<lparr> fmt := MNT_FMT_FSTAB \<rparr>) example_stream ''fstab''))))
       = [Some ''/dev/sda1'']"
    by code_simp
  from a b c d e g show ?thesis by (simp add: mnt_tab_parse_stream_def)
qed

subsection \<open>Mount table lock\<close>

lemma lock_loop_past_deadline:
  assumes "\<not> locked ml" "past_deadline maxtime a"
  shows "\<exists>r. lock_mtab_loop ml maxtime wt log (a # rest) = Some r"
  using assms
  by (auto simp: past_deadline_def Let_def mnt_wait_mtab_lock_def)

lemma lock_loop_returns:
  assumes "\<exists>a \<in> set turns. past_deadline maxtime a"
  shows "\<exists>r. lock_mtab_loop ml maxtime wt log turns = Some r"
  using assms
proof (induction turns arbitrary: ml log)
  case Nil
  then show ?case by simp
next
  case (Cons a rest)
  show ?case
  proof (cases "locked ml")
    case True
    then show ?thesis by simp
  next
    case False
    show ?thesis
    proof (cases "past_deadline maxtime a")
      case True
      from lock_loop_past_deadline [OF False True] show ?thesis .
    next
      case nd: False
      with Cons.prems have "\<exists>a \<in> set rest. past_deadline maxtime a" by simp
      note ih = Cons.IH [OF this]
      show ?thesis
        using False ih by (auto simp: Let_def)
    qed
  qed
qed

lemma lock_loop_outcome:
  assumes "lock_mtab_loop ml maxtime wt log turns = Some (rc, ml', log')"
  shows "(rc = 0 \<and> locked ml') \<or> (rc < 0 \<and> \<not> locked ml' \<and> lockfile_fd ml' = - 1)"
  using assms
proof (induction turns arbitrary: ml log)
  case Nil
  then show ?case by (simp split: if_splits)
next
  case (Cons a rest)
  show ?case
  proof (cases "locked ml")
    case True
    with Cons.prems show ?thesis by simp
  next
    case False
    with Cons.prems Cons.IH show ?thesis
      by (auto simp: Let_def mnt_unlock_file_def mnt_wait_mtab_lock_def ETIMEDOUT_def
          split: if_splits)
  qed
qed

lemma lock_loop_pauses:
  assumes "lock_mtab_loop ml maxtime wt log turns = Some (rc, ml', log')"
  shows "\<exists>new. log' = log @ new \<and> (\<forall>n. Nanosleep n \<in> set new \<longrightarrow> n = wt)"
  using assms
proof (induction turns arbitrary: ml log)
  case Nil
  then show ?case by (simp split: if_splits)
next
  case (Cons a rest)
  show ?case
  proof (cases "locked ml")
    case True
    with Cons.prems show ?thesis by simp
  next
    case False
    with Cons.prems Cons.IH show ?thesis
      by (fastforce simp: Let_def mnt_wait_mtab_lock_def split: if_splits)
  qed
qed

text \<open>
  C9 (the code departs from the claim). The deadline is the monotonic clock before the
  loop plus 30 seconds and the interval of the pause is 5 ms. With the lockfile held by
  another process, \<open>mnt_lock_file\<close> ends with \<open>-ETIMEDOUT\<close> on a turn that finds
  the deadline reached on entering the wait for the advisory lock, and on a turn whose
  wait, armed with an alarm for the seconds left to the deadline, is interrupted. A wait
  that ends without error is followed by the 5 ms pause and the next turn. A lockfile that
  has vanished before the deadline is retried at once, without the pause; a lockfile that
  cannot be opened otherwise ends the call with \<open>-errno\<close> of that \<open>open\<close>, which is
  \<open>-ENOENT\<close> for a lockfile removed after the deadline. The loop does not go round
  for ever: if on some turn both readings of the clock have reached the deadline, the call
  returns on that turn at the latest. Whenever it returns, the result is 0 with the lock
  owned or negative with the lock not owned, and every pause it has made is the interval.
\<close>

theorem lock_mtab_deadline:
  "MOUNTLOCK_MAXTIME = 30 \<and> waittime_nsec = 5000000
   \<and> (\<not> simplelock ml \<and> \<not> locked ml \<and> lockfile ml \<noteq> None \<and> linkfile ml \<noteq> None \<and>
        0 \<le> create_ret env \<longrightarrow>
        mnt_lock_file simple ml env =
          lock_mtab_loop ml (clock0 env + 30) 5000000 [] (attempts env))
   \<and> (\<not> locked ml \<and> link_ret a = - 1 \<and> link_errno a = EEXIST \<and> 0 \<le> open_ret a \<and>
        (maxtime \<le> now_wait a \<or> setlkw_ret a = - 1 \<and> setlkw_errno a = EINTR) \<longrightarrow>
        lock_mtab_loop ml maxtime wt log (a # rest) =
          Some (- ETIMEDOUT, ml\<lparr> locked := False, lockfile_fd := - 1 \<rparr>,
                log @ (if maxtime \<le> now_wait a then []
                       else [Alarm (maxtime - now_wait a), Alarm 0])))
   \<and> (\<not> locked ml \<and> link_ret a = - 1 \<and> link_errno a = EEXIST \<and> 0 \<le> open_ret a \<and>
        now_wait a < maxtime \<and> setlkw_ret a \<noteq> - 1 \<longrightarrow>
        lock_mtab_loop ml maxtime wt log (a # rest) =
          lock_mtab_loop (ml\<lparr> lockfile_fd := - 1 \<rparr>) maxtime wt
            (log @ [Alarm (maxtime - now_wait a), Alarm 0, Nanosleep wt]) rest)
   \<and> (\<not> locked ml \<and> link_ret a = - 1 \<and> link_errno a = EEXIST \<and> open_ret a < 0 \<and>
        open_errno a = ENOENT \<and> now_open a < maxtime \<longrightarrow>
        lock_mtab_loop ml maxtime wt log (a # rest) =
          lock_mtab_loop (ml\<lparr> lockfile_fd := open_ret a, locked := False \<rparr>) maxtime wt log rest)
   \<and> (\<not> locked ml \<and> link_ret a = - 1 \<and> link_errno a = EEXIST \<and> open_ret a < 0 \<and>
        0 < open_errno a \<and> (open_errno a \<noteq> ENOENT \<or> maxtime \<le> now_open a) \<longrightarrow>
        lock_mtab_loop ml maxtime wt log (a # rest) =
          Some (- open_errno a, ml\<lparr> locked := False, lockfile_fd := - 1 \<rparr>, log))
   \<and> ((\<exists>a \<in> set turns. past_deadline maxtime a) \<longrightarrow>
        (\<exists>rc ml' log'. lock_mtab_loop ml maxtime wt log turns = Some (rc, ml', log')))
   \<and> (lock_mtab_loop ml maxtime wt log turns = Some (rc, ml', log') \<longrightarrow>
        (rc = 0 \<and> locked ml' \<or> rc < 0 \<and> \<not> locked ml') \<and>
        (\<exists>new. log' = log @ new \<and> (\<forall>n. Nanosleep n \<in> set new \<longrightarrow> n = wt)))"
proof (intro conjI impI)
  show "MOUNTLOCK_MAXTIME = 30" by (simp add: MOUNTLOCK_MAXTIME_def)
  show "waittime_nsec = 5000000" by (simp add: waittime_nsec_def MOUNTLOCK_WAITTIME_def)
next
  assume "\<not> simplelock ml \<and> \<not> locked ml \<and> lockfile ml \<noteq> None \<and> linkfile ml \<noteq> None \<and>
        0 \<le> create_ret env"
  then show "mnt_lock_file simple ml env =
      lock_mtab_loop ml (clock0 env + 30) 5000000 [] (attempts env)"
    by (auto simp: mnt_lock_file_def lock_mtab_def MOUNTLOCK_MAXTIME_def waittime_nsec_def
        MOUNTLOCK_WAITTIME_def)
next
  assume "\<not> locked ml \<and> link_ret a = - 1 \<and> link_errno a = EEXIST \<and> 0 \<le> open_ret a \<and>
        (maxtime \<le> now_wait a \<or> setlkw_ret a = - 1 \<and> setlkw_errno a = EINTR)"
  then show "lock_mtab_loop ml maxtime wt log (a # rest) =
          Some (- ETIMEDOUT, ml\<lparr> locked := False, lockfile_fd := - 1 \<rparr>,
                log @ (if maxtime \<le> now_wait a then []
                       else [Alarm (maxtime - now_wait a), Alarm 0]))"
    by (auto simp: Let_def mnt_wait_mtab_lock_def mnt_unlock_file_def)
next
  assume "\<not> locked ml \<and> link_ret a = - 1 \<and> link_errno a = EEXIST \<and> 0 \<le> open_ret a \<and>
        now_wait a < maxtime \<and> setlkw_ret a \<noteq> - 1"
  then show "lock_mtab_loop ml maxtime wt log (a # rest) =
          lock_mtab_loop (ml\<lparr> lockfile_fd := - 1 \<rparr>) maxtime wt
            (log @ [Alarm (maxtime - now_wait a), Alarm 0, Nanosleep wt]) rest"
    by (simp add: Let_def mnt_wait_mtab_lock_def)
next
  assume "\<not> locked ml \<and> link_ret a = - 1 \<and> link_errno a = EEXIST \<and> open_ret a < 0 \<and>
        open_errno a = ENOENT \<and> now_open a < maxtime"
  then show "lock_mtab_loop ml maxtime wt log (a # rest) =
          lock_mtab_loop (ml\<lparr> lockfile_fd := open_ret a, locked := False \<rparr>) maxtime wt log rest"
    by (simp add: Let_def)
next
  assume "\<not> locked ml \<and> link_ret a = - 1 \<and> link_errno a = EEXIST \<and> open_ret a < 0 \<and>
        0 < open_errno a \<and> (open_errno a \<noteq> ENOENT \<or> maxtime \<le> now_open a)"
  then show "lock_mtab_loop ml maxtime wt log (a # rest) =
          Some (- open_errno a, ml\<lparr> locked := False, lockfile_fd := - 1 \<rparr>, log)"
    by (auto simp: Let_def mnt_unlock_file_def)
next
  assume "\<exists>a \<in> set turns. past_deadline maxtime a"
  from lock_loop_returns [OF this, of ml wt log]
  show "\<exists>rc ml' log'. lock_mtab_loop ml maxtime wt log turns = Some (rc, ml', log')" by auto
next
  assume r: "lock_mtab_loop ml maxtime wt log turns = Some (rc, ml', log')"
  from lock_loop_outcome [OF r] show "rc = 0 \<and> locked ml' \<or> rc < 0 \<and> \<not> locked ml'" by blast
  from lock_loop_pauses [OF r]
  show "\<exists>new. log' = log @ new \<and> (\<forall>n. Nanosleep n \<in> set new \<longrightarrow> n = wt)" .
qed

theorem lock_mtab_deadline_witness:
  "\<not> simplelock example_lock \<and> \<not> locked example_lock
   \<and> lockfile example_lock \<noteq> None \<and> linkfile example_lock \<noteq> None
   \<and> past_deadline 130 (turn_busy 130)
   \<and> mnt_lock_file (\<lambda>ml. None) example_lock (example_lock_env [turn_busy 100, turn_interrupted 105])
       = Some (- ETIMEDOUT, example_lock, [Alarm 30, Alarm 0, Nanosleep 5000000, Alarm 25, Alarm 0])
   \<and> lock_mtab_loop example_lock 130 5000000 [] [turn_vanished 110, turn_busy 130]
       = Some (- ETIMEDOUT, example_lock, [])
   \<and> lock_mtab_loop example_lock 130 5000000 [] [turn_vanished 131] = Some (- ENOENT, example_lock, [])
   \<and> (\<exists>rc ml' log'.
        lock_mtab_loop example_lock 130 5000000 [] [turn_busy 100, turn_vanished 110, turn_busy 130]
          = Some (rc, ml', log'))
   \<and> (\<exists>new. [Alarm 30, Alarm 0, Nanosleep 5000000, Alarm 25, Alarm 0] = [] @ new \<and>
         Nanosleep 5000000 \<in> set new)"
proof -
  let ?env = "example_lock_env [turn_busy 100, turn_interrupted 105]"
  let ?wt = "5000000 :: int"
  have h0: "\<not> simplelock example_lock" "\<not> locked example_lock"
    "lockfile example_lock \<noteq> None" "linkfile example_lock \<noteq> None"
    by (simp_all add: example_lock_def)
  have h1: "\<not> simplelock example_lock \<and> \<not> locked example_lock \<and> lockfile example_lock \<noteq> None
      \<and> linkfile example_lock \<noteq> None \<and> 0 \<le> create_ret ?env"
    using h0 by (simp add: example_lock_env_def)
  have pd: "past_deadline 130 (turn_busy 130)"
    by (simp add: past_deadline_def turn_busy_def)
  have e: "example_lock\<lparr> locked := False, lockfile_fd := - 1 \<rparr> = example_lock"
    "example_lock\<lparr> lockfile_fd := - 1 \<rparr> = example_lock"
    "example_lock\<lparr> lockfile_fd := open_ret (turn_vanished 110), locked := False \<rparr> = example_lock"
    by (simp_all add: example_lock_def turn_vanished_def)
  have h2a: "\<not> locked example_lock \<and> link_ret (turn_busy 130) = - 1
      \<and> link_errno (turn_busy 130) = EEXIST \<and> 0 \<le> open_ret (turn_busy 130)
      \<and> (130 \<le> now_wait (turn_busy 130)
         \<or> setlkw_ret (turn_busy 130) = - 1 \<and> setlkw_errno (turn_busy 130) = EINTR)"
    using h0 by (simp add: turn_busy_def)
  have h2b: "\<not> locked example_lock \<and> link_ret (turn_interrupted 105) = - 1
      \<and> link_errno (turn_interrupted 105) = EEXIST \<and> 0 \<le> open_ret (turn_interrupted 105)
      \<and> (130 \<le> now_wait (turn_interrupted 105)
         \<or> setlkw_ret (turn_interrupted 105) = - 1 \<and> setlkw_errno (turn_interrupted 105) = EINTR)"
    using h0 by (simp add: turn_interrupted_def)
  have h3: "\<not> locked example_lock \<and> link_ret (turn_busy 100) = - 1
      \<and> link_errno (turn_busy 100) = EEXIST \<and> 0 \<le> open_ret (turn_busy 100)
      \<and> now_wait (turn_busy 100) < 130 \<and> setlkw_ret (turn_busy 100) \<noteq> - 1"
    using h0 by (simp add: turn_busy_def)
  have h4: "\<not> locked example_lock \<and> link_ret (turn_vanished 110) = - 1
      \<and> link_errno (turn_vanished 110) = EEXIST \<and> open_ret (turn_vanished 110) < 0
      \<and> open_errno (turn_vanished 110) = ENOENT \<and> now_open (turn_vanished 110) < 130"
    using h0 by (simp add: turn_vanished_def)
  have h5: "\<not> locked example_lock \<and> link_ret (turn_vanished 131) = - 1
      \<and> link_errno (turn_vanished 131) = EEXIST \<and> open_ret (turn_vanished 131) < 0
      \<and> 0 < open_errno (turn_vanished 131)
      \<and> (open_errno (turn_vanished 131) \<noteq> ENOENT \<or> 130 \<le> now_open (turn_vanished 131))"
    using h0 by (simp add: turn_vanished_def ENOENT_def)
  have h6: "\<exists>a \<in> set [turn_busy 100, turn_vanished 110, turn_busy 130]. past_deadline 130 a"
    using pd by simp
  have c1: "mnt_lock_file (\<lambda>ml. None) example_lock ?env =
      lock_mtab_loop example_lock (clock0 ?env + 30) ?wt [] (attempts ?env)"
    by (rule lock_mtab_deadline [THEN conjunct2, THEN conjunct2, THEN conjunct1, THEN mp, OF h1])
  have c2a: "lock_mtab_loop example_lock 130 ?wt [] [turn_busy 130] =
      Some (- ETIMEDOUT, example_lock\<lparr> locked := False, lockfile_fd := - 1 \<rparr>,
            [] @ (if 130 \<le> now_wait (turn_busy 130) then []
                  else [Alarm (130 - now_wait (turn_busy 130)), Alarm 0]))"
    by (rule lock_mtab_deadline [THEN conjunct2, THEN conjunct2, THEN conjunct2, THEN conjunct1,
          THEN mp, OF h2a])
  have c2b: "lock_mtab_loop example_lock 130 ?wt [Alarm 30, Alarm 0, Nanosleep ?wt]
        [turn_interrupted 105] =
      Some (- ETIMEDOUT, example_lock\<lparr> locked := False, lockfile_fd := - 1 \<rparr>,
            [Alarm 30, Alarm 0, Nanosleep ?wt]
            @ (if 130 \<le> now_wait (turn_interrupted 105) then []
               else [Alarm (130 - now_wait (turn_interrupted 105)), Alarm 0]))"
    by (rule lock_mtab_deadline [THEN conjunct2, THEN conjunct2, THEN conjunct2, THEN conjunct1,
          THEN mp, OF h2b])
  have c3: "lock_mtab_loop example_lock 130 ?wt [] [turn_busy 100, turn_interrupted 105] =
      lock_mtab_loop (example_lock\<lparr> lockfile_fd := - 1 \<rparr>) 130 ?wt
        ([] @ [Alarm (130 - now_wait (turn_busy 100)), Alarm 0, Nanosleep ?wt])
        [turn_interrupted 105]"
    by (rule lock_mtab_deadline [THEN conjunct2, THEN conjunct2, THEN conjunct2, THEN conjunct2,
          THEN conjunct1, THEN mp, OF h3])
  have c4: "lock_mtab_loop example_lock 130 ?wt [] [turn_vanished 110, turn_busy 130] =
      lock_mtab_loop (example_lock\<lparr> lockfile_fd := open_ret (turn_vanished 110), locked := False \<rparr>)
        130 ?wt [] [turn_busy 130]"
    by (rule lock_mtab_deadline [THEN conjunct2, THEN conjunct2, THEN conjunct2, THEN conjunct2,
          THEN conjunct2, THEN conjunct1, THEN mp, OF h4])
  have c5: "lock_mtab_loop example_lock 130 ?wt [] [turn_vanished 131] =
      Some (- open_errno (turn_vanished 131),
            example_lock\<lparr> locked := False, lockfile_fd := - 1 \<rparr>, [])"
    by (rule lock_mtab_deadline [THEN conjunct2, THEN conjunct2, THEN conjunct2, THEN conjunct2,
          THEN conjunct2, THEN conjunct2, THEN conjunct1, THEN mp, OF h5])
  have c6: "\<exists>rc ml' log'.
      lock_mtab_loop example_lock 130 ?wt [] [turn_busy 100, turn_vanished 110, turn_busy 130]
        = Some (rc, ml', log')"
    by (rule lock_mtab_deadline [THEN conjunct2, THEN conjunct2, THEN conjunct2, THEN conjunct2,
          THEN conjunct2, THEN conjunct2, THEN conjunct2, THEN conjunct1, THEN mp, OF h6])
  have nw: "now_wait (turn_busy 100) = 100" "now_wait (turn_busy 130) = 130"
    "now_wait (turn_interrupted 105) = 105" "open_errno (turn_vanished 131) = ENOENT"
    "clock0 ?env = 100" "attempts ?env = [turn_busy 100, turn_interrupted 105]"
    by (simp_all add: turn_busy_def turn_interrupted_def turn_vanished_def example_lock_env_def)
  have r2a: "lock_mtab_loop example_lock 130 ?wt [] [turn_busy 130] =
      Some (- ETIMEDOUT, example_lock, [])"
    using c2a by (simp only: e nw) simp
  have r2b: "lock_mtab_loop example_lock 130 ?wt [Alarm 30, Alarm 0, Nanosleep ?wt]
        [turn_interrupted 105] =
      Some (- ETIMEDOUT, example_lock, [Alarm 30, Alarm 0, Nanosleep ?wt, Alarm 25, Alarm 0])"
    using c2b by (simp only: e nw) simp
  have r3: "lock_mtab_loop example_lock 130 ?wt [] [turn_busy 100, turn_interrupted 105] =
      Some (- ETIMEDOUT, example_lock, [Alarm 30, Alarm 0, Nanosleep ?wt, Alarm 25, Alarm 0])"
    using c3 r2b by (simp only: e nw) simp
  have r1: "mnt_lock_file (\<lambda>ml. None) example_lock ?env =
      Some (- ETIMEDOUT, example_lock, [Alarm 30, Alarm 0, Nanosleep ?wt, Alarm 25, Alarm 0])"
    using c1 r3 by (simp only: nw) simp
  have r4: "lock_mtab_loop example_lock 130 ?wt [] [turn_vanished 110, turn_busy 130] =
      Some (- ETIMEDOUT, example_lock, [])"
    using c4 r2a by (simp only: e)
  have r5: "lock_mtab_loop example_lock 130 ?wt [] [turn_vanished 131] =
      Some (- ENOENT, example_lock, [])"
    using c5 by (simp only: e nw)
  have c7: "(- ETIMEDOUT = 0 \<and> locked example_lock \<or> - ETIMEDOUT < 0 \<and> \<not> locked example_lock) \<and>
      (\<exists>new. [Alarm 30, Alarm 0, Nanosleep ?wt, Alarm 25, Alarm 0] = [] @ new \<and>
         (\<forall>n. Nanosleep n \<in> set new \<longrightarrow> n = ?wt))"
    by (rule lock_mtab_deadline [THEN conjunct2, THEN conjunct2, THEN conjunct2, THEN conjunct2,
          THEN conjunct2, THEN conjunct2, THEN conjunct2, THEN conjunct2, THEN mp, OF r3])
  then have r7: "\<exists>new. [Alarm 30, Alarm 0, Nanosleep ?wt, Alarm 25, Alarm 0] = [] @ new \<and>
      Nanosleep ?wt \<in> set new"
    by auto
  from h0 pd r1 r4 r5 c6 r7 show ?thesis by (simp only: simp_thms)
qed

text \<open>
  The lockfile of another process disappears more than 30 seconds after the first turn:
  the deadline has expired, the lock is not owned, and the result is \<open>-ENOENT\<close>.
\<close>

theorem lock_mtab_vanished_lockfile_counterexample:
  "mnt_lock_file (\<lambda>ml. None) example_lock (example_lock_env [turn_busy 100, turn_vanished 131])
     = Some (- ENOENT, example_lock, [Alarm 30, Alarm 0, Nanosleep 5000000])
   \<and> - ENOENT \<noteq> - ETIMEDOUT
   \<and> 100 + MOUNTLOCK_MAXTIME \<le> now_open (turn_vanished 131)
   \<and> \<not> locked example_lock"
  by (simp add: mnt_lock_file_def lock_mtab_def example_lock_def example_lock_env_def
      turn_busy_def turn_vanished_def mnt_wait_mtab_lock_def mnt_unlock_file_def
      MOUNTLOCK_MAXTIME_def waittime_nsec_def MOUNTLOCK_WAITTIME_def Let_def
      ENOENT_def ETIMEDOUT_def EEXIST_def)

end
